theory Spec2Isabelle
  imports Main
begin

section \<open>JavaScript values, objects and the store\<close>

text \<open>
  The client of \<^verbatim>\<open>src/API.js\<close> keeps JavaScript values in its fields and mutates its
  parameter object in place (\<^verbatim>\<open>Object.assign(this._params, params)\<close>), so objects
  live in a store and values refer to them by address. Numbers are integers (no NaN, no
  fractions); on these values the strict comparison \<^verbatim>\<open>!==\<close> of the source is
  inequality of \<open>jsval\<close>: primitives compare by value, references by address.
\<close>

type_synonym addr = nat

datatype jsval = JUndefined | JNull | JBool bool | JNum int | JStr string | JRef addr

text \<open>The test of \<^verbatim>\<open>if (v)\<close>: objects and arrays (also empty ones) are truthy.\<close>

fun truthy :: "jsval \<Rightarrow> bool" where
  "truthy JUndefined = False"
| "truthy JNull = False"
| "truthy (JBool b) = b"
| "truthy (JNum n) = (n \<noteq> 0)"
| "truthy (JStr s) = (s \<noteq> [])"
| "truthy (JRef a) = True"

type_synonym props = "string \<rightharpoonup> jsval"

datatype cell = Obj props | Arr "jsval list"

type_synonym heap = "addr \<rightharpoonup> cell"

section \<open>The Request Error class (\<^verbatim>\<open>ApiException\<close>)\<close>

record ApiException =
  message :: jsval
  name :: string

text \<open>
  What a piece of code can end with instead of returning: a \<^verbatim>\<open>TypeError\<close> of the
  language, an \<^verbatim>\<open>ApiException\<close> thrown by \<^verbatim>\<open>post\<close>'s catch handler, the rejection
  value of an HTTP call that no handler catches, the value a callback threw, and
  \<open>Unsupported\<close> for
  \<^verbatim>\<open>Object.assign\<close> on a target that is neither an object nor null/undefined (the
  parameters are documented as \<^verbatim>\<open>{object}\<close>; wrapper objects are not modelled).
\<close>

datatype exn = TypeError | Unsupported | Rejection jsval | Raised jsval | Thrown ApiException

text \<open>
  Reading \<^verbatim>\<open>v.k\<close>. On null and undefined it throws; on a plain object it gives the
  property or undefined; arrays and primitives have none of the keys the program reads
  (\<^verbatim>\<open>id\<close>, \<^verbatim>\<open>data\<close>, \<^verbatim>\<open>meta\<close>, \<^verbatim>\<open>response\<close>, \<^verbatim>\<open>message\<close>).
\<close>

fun get_prop :: "heap \<Rightarrow> jsval \<Rightarrow> string \<Rightarrow> exn + jsval" where
  "get_prop h JUndefined k = Inl TypeError"
| "get_prop h JNull k = Inl TypeError"
| "get_prop h (JRef a) k =
     (case h a of
        Some (Obj m) \<Rightarrow> (case m k of Some v \<Rightarrow> Inr v | None \<Rightarrow> Inr JUndefined)
      | _ \<Rightarrow> Inr JUndefined)"
| "get_prop h v k = Inr JUndefined"

text \<open>A chain of reads \<^verbatim>\<open>v.k1.k2...\<close>, left to right; the first throw ends it.\<close>

fun get_path :: "heap \<Rightarrow> jsval \<Rightarrow> string list \<Rightarrow> exn + jsval" where
  "get_path h v [] = Inr v"
| "get_path h v (k # ks) =
     (case get_prop h v k of Inl e \<Rightarrow> Inl e | Inr v' \<Rightarrow> get_path h v' ks)"

section \<open>The client and its environment\<close>

text \<open>
  The fields of \<^verbatim>\<open>class API\<close>; \<open>p_x\<close> is the source's \<^verbatim>\<open>this._x\<close>. Functions
  (callbacks) are identified by a number, \<open>None\<close> being \<^verbatim>\<open>null\<close>; a timer handle is the
  positive integer \<^verbatim>\<open>setTimeout\<close> returned.
\<close>

record API =
  p_route :: string
  p_params :: jsval
  p_meta :: jsval
  p_raw :: jsval
  p_data :: jsval
  p_loading :: bool
  p_saving :: bool
  p_debounce :: nat
  p_debouncing :: "nat option"
  p_callback :: "nat option"

text \<open>The fixed table \<^verbatim>\<open>this._endpoints\<close>.\<close>

datatype endpoint = index | destroy | show_ep | store_ep | update_ep

fun endpoints :: "endpoint \<Rightarrow> string" where
  "endpoints index = ''.index''"
| "endpoints destroy = ''.destroy''"
| "endpoints show_ep = ''.show''"
| "endpoints store_ep = ''.store''"
| "endpoints update_ep = ''.update''"

text \<open>
  The closures the client hands to the environment: the function given to
  \<^verbatim>\<open>setTimeout\<close> by \<^verbatim>\<open>get\<close> and \<^verbatim>\<open>show\<close>, and the handlers attached to the promise
  of an HTTP call. Each captures the call's \<^verbatim>\<open>callback\<close> (and \<^verbatim>\<open>delete\<close>'s \<^verbatim>\<open>id\<close>).
\<close>

datatype task = FetchIndex "nat option" | FetchShow "nat option"

datatype cont =
    IndexThen "nat option"
  | ShowThen "nat option"
  | StoreThen "nat option"
  | UpdateThen "nat option"
  | DestroyThen jsval "nat option"

record timer =
  t_handle :: nat
  t_due :: nat
  t_task :: task

datatype verb = GET | POST | PUT | DELETE

text \<open>
  One call of \<^verbatim>\<open>window.axios\<close>: the verb, the route name given to
  \<^verbatim>\<open>window.route\<close>, the properties of the parameter object at that moment, and the
  body of a write.
\<close>

record request =
  r_verb :: verb
  r_name :: string
  r_params :: props
  r_body :: "props option"

datatype reply = Fulfilled jsval | Rejected jsval

text \<open>
  The world: the client, the store, the clock (milliseconds), the pending timers, the
  HTTP calls in flight, and what the program did to its surroundings: the HTTP calls
  made, the console, the global event bus, and the callbacks invoked (each with its
  argument and the client's fields as the callback finds them). The functions the
  application passes as callbacks are part of the world too: \<open>throws w f r\<close> is the
  value that function \<open>f\<close> throws when it is called with \<open>r\<close>, \<open>None\<close> when it returns.
\<close>

record world =
  client :: API
  heap :: heap
  next_addr :: addr
  now :: nat
  last_handle :: nat
  timers :: "timer list"
  last_request :: nat
  pending :: "(nat \<times> cont) list"
  http :: "request list"
  console :: "jsval list"
  emitted :: "(string \<times> jsval) list"
  invoked :: "(nat \<times> jsval \<times> API) list"
  throws :: "nat \<Rightarrow> jsval \<Rightarrow> jsval option"

subsection \<open>The environment's functions\<close>

definition alloc :: "cell \<Rightarrow> world \<Rightarrow> addr \<times> world" where
  "alloc c w =
     (next_addr w, w\<lparr>heap := (heap w)(next_addr w \<mapsto> c), next_addr := Suc (next_addr w)\<rparr>)"

definition clearTimeout :: "nat option \<Rightarrow> world \<Rightarrow> world" where
  "clearTimeout h w =
     (case h of
        None \<Rightarrow> w
      | Some n \<Rightarrow> w\<lparr>timers := filter (\<lambda>tm. t_handle tm \<noteq> n) (timers w)\<rparr>)"

definition setTimeout :: "task \<Rightarrow> nat \<Rightarrow> world \<Rightarrow> nat \<times> world" where
  "setTimeout f delay w =
     (let h = Suc (last_handle w)
      in (h, w\<lparr>last_handle := h,
               timers := timers w @ [\<lparr>t_handle = h, t_due = now w + delay, t_task = f\<rparr>]\<rparr>))"

text \<open>\<^verbatim>\<open>handle ? a : b\<close> on a timer handle: null is falsy, a number is truthy unless 0.\<close>

fun handle_truthy :: "nat option \<Rightarrow> bool" where
  "handle_truthy None = False"
| "handle_truthy (Some n) = (n \<noteq> 0)"

text \<open>The properties \<^verbatim>\<open>window.route\<close> finds in the parameter value it is given.\<close>

definition props_of :: "heap \<Rightarrow> jsval \<Rightarrow> props" where
  "props_of h v =
     (case v of
        JRef a \<Rightarrow> (case h a of Some (Obj m) \<Rightarrow> m | _ \<Rightarrow> Map.empty)
      | _ \<Rightarrow> Map.empty)"

text \<open>
  \<^verbatim>\<open>window.axios.<verb>(window.route(this._route + suffix, this._params), body).then(k)\<close>:
  the call is recorded with the parameters as they are now, and the handlers wait.
\<close>

definition axios :: "verb \<Rightarrow> endpoint \<Rightarrow> props option \<Rightarrow> cont \<Rightarrow> world \<Rightarrow> world" where
  "axios v ep body k w =
     (let rid = Suc (last_request w)
      in w\<lparr>last_request := rid,
           http := http w @ [\<lparr>r_verb = v, r_name = p_route (client w) @ endpoints ep,
                              r_params = props_of (heap w) (p_params (client w)),
                              r_body = body\<rparr>],
           pending := pending w @ [(rid, k)]\<rparr>)"

text \<open>
  \<^verbatim>\<open>Object.assign(target, src1, ..., srcn)\<close> with object sources: the target object is
  changed in place, later sources overwriting earlier keys.
\<close>

definition object_assign :: "jsval \<Rightarrow> props list \<Rightarrow> world \<Rightarrow> exn + world" where
  "object_assign target srcs w =
     (case target of
        JUndefined \<Rightarrow> Inl TypeError
      | JNull \<Rightarrow> Inl TypeError
      | JRef a \<Rightarrow>
          (case heap w a of
             Some (Obj m) \<Rightarrow> Inr (w\<lparr>heap := (heap w)(a \<mapsto> Obj (foldl (++) m srcs))\<rparr>)
           | _ \<Rightarrow> Inl Unsupported)
      | _ \<Rightarrow> Inl Unsupported)"

text \<open>
  \<^verbatim>\<open>if (f) { f(r) }\<close>: the call is recorded, and it returns or throws a value.
\<close>

definition invoke :: "nat option \<Rightarrow> jsval \<Rightarrow> world \<Rightarrow> world" where
  "invoke f r w =
     (case f of
        None \<Rightarrow> w
      | Some g \<Rightarrow> w\<lparr>invoked := invoked w @ [(g, r, client w)]\<rparr>)"

definition thrown :: "nat option \<Rightarrow> jsval \<Rightarrow> world \<Rightarrow> jsval option" where
  "thrown f r w = (case f of None \<Rightarrow> None | Some g \<Rightarrow> throws w g r)"

section \<open>\<^verbatim>\<open>ApiException\<close>\<close>

text \<open>
  \<^verbatim>\<open>constructor(error)\<close>: logs, reads \<^verbatim>\<open>error.response.data.message\<close>, emits. A throw
  leaves the world as it is at that statement.
\<close>

definition new_ApiException :: "jsval \<Rightarrow> world \<Rightarrow> (exn \<times> world) + (ApiException \<times> world)" where
  "new_ApiException error w =
     (let w1 = w\<lparr>console := console w @ [error]\<rparr>
      in case get_path (heap w1) error [''response'', ''data'', ''message''] of
           Inl e \<Rightarrow> Inl (e, w1)
         | Inr msg \<Rightarrow>
             Inr (\<lparr>message = msg, name = ''APIException''\<rparr>,
                  w1\<lparr>emitted := emitted w1 @ [(''error-message'', error)]\<rparr>))"

definition toString :: "ApiException \<Rightarrow> jsval" where
  "toString x = message x"

section \<open>\<^verbatim>\<open>API\<close>: accessors\<close>

text \<open>A method returns \<^verbatim>\<open>this\<close> or a value.\<close>

datatype ret = This | Value jsval

text \<open>
  \<^verbatim>\<open>data(data = null)\<close> and \<^verbatim>\<open>meta(meta = null)\<close>: an omitted argument is
  \<open>JUndefined\<close>, which the default turns into null; both are falsy.
\<close>

definition data :: "jsval \<Rightarrow> world \<Rightarrow> ret \<times> world" where
  "data d w =
     (if truthy d then (This, w\<lparr>client := (client w)\<lparr>p_data := d\<rparr>\<rparr>)
      else (Value (p_data (client w)), w))"

definition meta :: "jsval \<Rightarrow> world \<Rightarrow> ret \<times> world" where
  "meta m w =
     (if truthy m then (This, w\<lparr>client := (client w)\<lparr>p_meta := m\<rparr>\<rparr>)
      else (Value (p_meta (client w)), w))"

definition params :: "jsval \<Rightarrow> world \<Rightarrow> ret \<times> world" where
  "params p w = (This, w\<lparr>client := (client w)\<lparr>p_params := p\<rparr>\<rparr>)"

definition loading :: "world \<Rightarrow> bool" where
  "loading w = p_loading (client w)"

definition saving :: "world \<Rightarrow> bool" where
  "saving w = p_saving (client w)"

definition onSuccess :: "nat option \<Rightarrow> world \<Rightarrow> ret \<times> world" where
  "onSuccess callback w = (This, w\<lparr>client := (client w)\<lparr>p_callback := callback\<rparr>\<rparr>)"

section \<open>\<^verbatim>\<open>API\<close>: requests\<close>

text \<open>
  A request method returns \<^verbatim>\<open>this\<close> (\<open>Inr\<close>, with the world it leaves) or throws
  (\<open>Inl\<close>, with the world as it is at the throw). Its \<^verbatim>\<open>params\<close> and \<^verbatim>\<open>data\<close>
  arguments are objects, given by their properties (\<open>Map.empty\<close> for the default
  \<^verbatim>\<open>{}\<close>): the method only reads them, once, before it returns.

  \<^verbatim>\<open>let _params = this._params\<close> copies the reference, not the object, so
  \<^verbatim>\<open>this.params(_params)\<close> at the end stores the reference that is already there.
\<close>

definition get :: "props \<Rightarrow> nat option \<Rightarrow> world \<Rightarrow> (exn \<times> world) + world" where
  "get ps callback w =
     (let p0 = p_params (client w);
          w1 = clearTimeout (p_debouncing (client w)) w;
          w2 = w1\<lparr>client := (client w1)\<lparr>p_loading := True\<rparr>\<rparr>
      in case object_assign (p_params (client w2)) [ps] w2 of
           Inl e \<Rightarrow> Inl (e, w2)
         | Inr w3 \<Rightarrow>
             (let delay = (if handle_truthy (p_debouncing (client w3))
                           then p_debounce (client w3) else 0);
                  (h, w4) = setTimeout (FetchIndex callback) delay w3;
                  w5 = w4\<lparr>client := (client w4)\<lparr>p_debouncing := Some h\<rparr>\<rparr>
              in Inr (snd (params p0 w5))))"

definition show_req :: "props \<Rightarrow> nat option \<Rightarrow> world \<Rightarrow> (exn \<times> world) + world" where
  "show_req ps callback w =
     (let p0 = p_params (client w);
          w1 = clearTimeout (p_debouncing (client w)) w;
          w2 = w1\<lparr>client := (client w1)\<lparr>p_loading := True\<rparr>\<rparr>
      in case object_assign (p_params (client w2)) [ps] w2 of
           Inl e \<Rightarrow> Inl (e, w2)
         | Inr w3 \<Rightarrow>
             (let delay = (if handle_truthy (p_debouncing (client w3))
                           then p_debounce (client w3) else 0);
                  (h, w4) = setTimeout (FetchShow callback) delay w3;
                  w5 = w4\<lparr>client := (client w4)\<lparr>p_debouncing := Some h\<rparr>\<rparr>
              in Inr (snd (params p0 w5))))"

definition post :: "props \<Rightarrow> props \<Rightarrow> nat option \<Rightarrow> world \<Rightarrow> (exn \<times> world) + world" where
  "post ps body callback w =
     (let p0 = p_params (client w);
          w1 = w\<lparr>client := (client w)\<lparr>p_saving := True\<rparr>\<rparr>
      in case object_assign (p_params (client w1)) [ps] w1 of
           Inl e \<Rightarrow> Inl (e, w1)
         | Inr w2 \<Rightarrow>
             (let w3 = axios POST store_ep (Some body) (StoreThen callback) w2
              in Inr (snd (params p0 w3))))"

definition update :: "props \<Rightarrow> props \<Rightarrow> nat option \<Rightarrow> world \<Rightarrow> (exn \<times> world) + world" where
  "update ps body callback w =
     (let p0 = p_params (client w);
          w1 = w\<lparr>client := (client w)\<lparr>p_saving := True\<rparr>\<rparr>
      in case object_assign (p_params (client w1)) [ps] w1 of
           Inl e \<Rightarrow> Inl (e, w1)
         | Inr w2 \<Rightarrow>
             (let w3 = axios PUT update_ep (Some body) (UpdateThen callback) w2
              in Inr (snd (params p0 w3))))"

definition delete :: "jsval \<Rightarrow> nat option \<Rightarrow> props \<Rightarrow> world \<Rightarrow> (exn \<times> world) + world" where
  "delete id' callback ps w =
     (let p0 = p_params (client w)
      in case object_assign (p_params (client w)) [ps, [''id'' \<mapsto> id']] w of
           Inl e \<Rightarrow> Inl (e, w)
         | Inr w1 \<Rightarrow>
             (let w2 = axios DELETE destroy None (DestroyThen id' callback) w1
              in Inr (snd (params p0 w2))))"

section \<open>The environment runs the closures\<close>

text \<open>The function given to \<^verbatim>\<open>setTimeout\<close> by \<^verbatim>\<open>get\<close> and by \<^verbatim>\<open>show\<close>.\<close>

fun run_task :: "task \<Rightarrow> world \<Rightarrow> world" where
  "run_task (FetchIndex callback) w = axios GET index None (IndexThen callback) w"
| "run_task (FetchShow callback) w = axios GET show_ep None (ShowThen callback) w"

text \<open>
  Time passes until instant \<open>t\<close>: the timers due by then run, earliest first (in the
  order they were set when due together). The tasks of this program set no timers.
\<close>

definition elapse :: "nat \<Rightarrow> world \<Rightarrow> world" where
  "elapse t w =
     foldl (\<lambda>w' tm. run_task (t_task tm) w')
       (w\<lparr>now := max (now w) t, timers := filter (\<lambda>tm. \<not> t_due tm \<le> t) (timers w)\<rparr>)
       (sort_key t_due (filter (\<lambda>tm. t_due tm \<le> t) (timers w)))"

text \<open>
  The handlers. Each returns the exception that ends it, if any (an unhandled rejection
  for the environment), and the world it leaves. A callback is called as the last
  statement it is in the source: what the handler did before stays done when the
  callback throws. Callbacks are opaque otherwise: what they do to the client
  themselves is not modelled.
\<close>

definition index_then :: "nat option \<Rightarrow> jsval \<Rightarrow> world \<Rightarrow> exn option \<times> world" where
  "index_then callback r w =
     (case get_path (heap w) r [''data'', ''data''] of
        Inl e \<Rightarrow> (Some e, w)
      | Inr d \<Rightarrow>
          (let w1 = w\<lparr>client := (client w)\<lparr>p_data := d\<rparr>\<rparr>
           in case get_path (heap w1) r [''data'', ''meta''] of
                Inl e \<Rightarrow> (Some e, w1)
              | Inr m \<Rightarrow>
                  (let w2 = w1\<lparr>client := (client w1)\<lparr>p_meta := m\<rparr>\<rparr>;
                       w3 = w2\<lparr>client := (client w2)\<lparr>p_loading := False\<rparr>\<rparr>
                   in (map_option Raised (thrown callback r w3), invoke callback r w3))))"

definition show_then :: "nat option \<Rightarrow> jsval \<Rightarrow> world \<Rightarrow> exn option \<times> world" where
  "show_then callback r w =
     (case get_path (heap w) r [''data'', ''data''] of
        Inl e \<Rightarrow> (Some e, w)
      | Inr d \<Rightarrow>
          (let w1 = w\<lparr>client := (client w)\<lparr>p_data := d\<rparr>\<rparr>
           in case get_path (heap w1) r [''data'', ''meta''] of
                Inl e \<Rightarrow> (Some e, w1)
              | Inr m \<Rightarrow>
                  (let w2 = w1\<lparr>client := (client w1)\<lparr>p_meta := m\<rparr>\<rparr>
                   in case get_path (heap w2) r [''data''] of
                        Inl e \<Rightarrow> (Some e, w2)
                      | Inr raw \<Rightarrow>
                          (let w3 = w2\<lparr>client := (client w2)\<lparr>p_raw := raw\<rparr>\<rparr>;
                               w4 = w3\<lparr>client := (client w3)\<lparr>p_loading := False\<rparr>\<rparr>
                           in (map_option Raised (thrown callback r w4),
                               invoke callback r w4)))))"

text \<open>
  The then-handler of \<^verbatim>\<open>post\<close>, with the value it throws, if any: a throw of the
  registered callback skips the call's own callback.
\<close>

definition store_then :: "nat option \<Rightarrow> jsval \<Rightarrow> world \<Rightarrow> jsval option \<times> world" where
  "store_then callback r w =
     (let w1 = w\<lparr>client := (client w)\<lparr>p_saving := False\<rparr>\<rparr>;
          w2 = invoke (p_callback (client w1)) r w1
      in case thrown (p_callback (client w1)) r w1 of
           Some v \<Rightarrow> (Some v, w2)
         | None \<Rightarrow> (thrown callback r w2, invoke callback r w2))"

text \<open>\<^verbatim>\<open>.catch(e => { throw new APIException(e) })\<close>\<close>

definition store_catch :: "jsval \<Rightarrow> world \<Rightarrow> exn option \<times> world" where
  "store_catch e w =
     (case new_ApiException e w of
        Inl (x, w') \<Rightarrow> (Some x, w')
      | Inr (a, w') \<Rightarrow> (Some (Thrown a), w'))"

definition update_then :: "nat option \<Rightarrow> jsval \<Rightarrow> world \<Rightarrow> exn option \<times> world" where
  "update_then callback r w =
     (let w1 = w\<lparr>client := (client w)\<lparr>p_saving := False\<rparr>\<rparr>;
          w2 = invoke (p_callback (client w1)) r w1
      in case thrown (p_callback (client w1)) r w1 of
           Some v \<Rightarrow> (Some (Raised v), w2)
         | None \<Rightarrow> (map_option Raised (thrown callback r w2), invoke callback r w2))"

text \<open>\<^verbatim>\<open>Array.prototype.filter\<close> with a test that may throw.\<close>

fun filter_js :: "(jsval \<Rightarrow> exn + bool) \<Rightarrow> jsval list \<Rightarrow> exn + jsval list" where
  "filter_js p [] = Inr []"
| "filter_js p (d # ds) =
     (case p d of
        Inl e \<Rightarrow> Inl e
      | Inr b \<Rightarrow>
          (case filter_js p ds of
             Inl e \<Rightarrow> Inl e
           | Inr ys \<Rightarrow> Inr (if b then d # ys else ys)))"

text \<open>\<^verbatim>\<open>d => { return d.id !== id }\<close>\<close>

definition id_differs :: "heap \<Rightarrow> jsval \<Rightarrow> jsval \<Rightarrow> exn + bool" where
  "id_differs h id' d =
     (case get_prop h d ''id'' of Inl e \<Rightarrow> Inl e | Inr v \<Rightarrow> Inr (v \<noteq> id'))"

text \<open>
  \<^verbatim>\<open>this.data(this.data().filter(...))\<close>: \<^verbatim>\<open>filter\<close> exists on arrays only, and its
  result is a new array.
\<close>

definition destroy_then :: "jsval \<Rightarrow> nat option \<Rightarrow> jsval \<Rightarrow> world \<Rightarrow> exn option \<times> world" where
  "destroy_then id' callback r w =
     (case data JNull w of
        (This, w0) \<Rightarrow> (Some TypeError, w0)
      | (Value (JRef a), w0) \<Rightarrow>
          (case heap w0 a of
             Some (Arr ds) \<Rightarrow>
               (case filter_js (id_differs (heap w0) id') ds of
                  Inl e \<Rightarrow> (Some e, w0)
                | Inr ys \<Rightarrow>
                    (let (b, w1) = alloc (Arr ys) w0;
                         w2 = snd (data (JRef b) w1)
                     in (map_option Raised (thrown callback r w2), invoke callback r w2)))
           | _ \<Rightarrow> (Some TypeError, w0))
      | (Value _, w0) \<Rightarrow> (Some TypeError, w0))"

text \<open>
  Settling the promise of an HTTP call. Only \<^verbatim>\<open>post\<close> attaches a catch handler, and
  it is chained after the then-handler: it receives the rejection of the call, and also
  what the then-handler threw on a fulfilled call. A rejection of the other calls, and
  a throw of their handlers, goes unhandled.
\<close>

fun settle :: "cont \<Rightarrow> reply \<Rightarrow> world \<Rightarrow> exn option \<times> world" where
  "settle (IndexThen callback) (Fulfilled r) w = index_then callback r w"
| "settle (IndexThen callback) (Rejected e) w = (Some (Rejection e), w)"
| "settle (ShowThen callback) (Fulfilled r) w = show_then callback r w"
| "settle (ShowThen callback) (Rejected e) w = (Some (Rejection e), w)"
| "settle (StoreThen callback) (Fulfilled r) w =
     (case store_then callback r w of
        (None, w') \<Rightarrow> (None, w')
      | (Some v, w') \<Rightarrow> store_catch v w')"
| "settle (StoreThen callback) (Rejected e) w = store_catch e w"
| "settle (UpdateThen callback) (Fulfilled r) w = update_then callback r w"
| "settle (UpdateThen callback) (Rejected e) w = (Some (Rejection e), w)"
| "settle (DestroyThen id' callback) (Fulfilled r) w = destroy_then id' callback r w"
| "settle (DestroyThen id' callback) (Rejected e) w = (Some (Rejection e), w)"

text \<open>The reply to the HTTP call \<open>rid\<close> arrives (nothing happens if none is in flight).\<close>

definition respond :: "nat \<Rightarrow> reply \<Rightarrow> world \<Rightarrow> exn option \<times> world" where
  "respond rid rep w =
     (case map_of (pending w) rid of
        None \<Rightarrow> (None, w)
      | Some k \<Rightarrow> settle k rep (w\<lparr>pending := filter (\<lambda>p. fst p \<noteq> rid) (pending w)\<rparr>))"

section \<open>\<^verbatim>\<open>API\<close>: the constructor\<close>

text \<open>
  \<^verbatim>\<open>constructor(route, init = null, params = {}, meta = {}, autoload = true)\<close>. A
  default applies to an argument that is \<open>JUndefined\<close>; the defaults \<^verbatim>\<open>{}\<close> and the
  literal \<^verbatim>\<open>[]\<close> are new objects. The new client takes the world's \<open>client\<close> slot.
\<close>

definition with_default :: "jsval \<Rightarrow> cell \<Rightarrow> world \<Rightarrow> jsval \<times> world" where
  "with_default v c w =
     (if v = JUndefined then (let (a, w') = alloc c w in (JRef a, w')) else (v, w))"

definition new_API ::
  "string \<Rightarrow> jsval \<Rightarrow> jsval \<Rightarrow> jsval \<Rightarrow> bool \<Rightarrow> world \<Rightarrow> (exn \<times> world) + world" where
  "new_API route init0 params0 meta0 autoload w =
     (let init = (if init0 = JUndefined then JNull else init0);
          (ps, wa) = with_default params0 (Obj Map.empty) w;
          (mt, wb) = with_default meta0 (Obj Map.empty) wa;
          (arr, wc) = alloc (Arr []) wb;
          w1 = wc\<lparr>client := \<lparr>p_route = route, p_params = ps, p_meta = mt, p_raw = JNull,
                               p_data = JRef arr, p_loading = False, p_saving = False,
                               p_debounce = 1000, p_debouncing = None, p_callback = None\<rparr>\<rparr>;
          r2 = (if truthy init
                then (case get_prop (heap w1) init ''data'' of
                        Inl e \<Rightarrow> Inl (e, w1)
                      | Inr d \<Rightarrow>
                          (let wd = snd (data d w1)
                           in case get_prop (heap wd) init ''meta'' of
                                Inl e \<Rightarrow> Inl (e, wd)
                              | Inr m \<Rightarrow> Inr (snd (meta m wd))))
                else Inr w1)
      in case r2 of
           Inl x \<Rightarrow> Inl x
         | Inr w2 \<Rightarrow> (if autoload \<and> route \<noteq> [] then get Map.empty None w2 else Inr w2))"

section \<open>Sequences of calls and events\<close>

text \<open>
  What happens to a client, one after the other: the application calls a method, time
  passes, the reply to an HTTP call arrives. A call that throws ends the sequence. The
  exception of a handler is an unhandled rejection, which no caller sees.
\<close>

datatype event =
    Get props "nat option"
  | Show props "nat option"
  | Post props props "nat option"
  | Update props props "nat option"
  | Delete jsval "nat option" props
  | Params jsval
  | Elapse nat
  | Respond nat reply

fun step :: "event \<Rightarrow> world \<Rightarrow> (exn \<times> world) + world" where
  "step (Get ps callback) w = get ps callback w"
| "step (Show ps callback) w = show_req ps callback w"
| "step (Post ps body callback) w = post ps body callback w"
| "step (Update ps body callback) w = update ps body callback w"
| "step (Delete id' callback ps) w = delete id' callback ps w"
| "step (Params p) w = Inr (snd (params p w))"
| "step (Elapse t) w = Inr (elapse t w)"
| "step (Respond rid rep) w = Inr (snd (respond rid rep w))"

fun run :: "event list \<Rightarrow> world \<Rightarrow> (exn \<times> world) + world" where
  "run [] w = Inr w"
| "run (e # es) w = (case step e w of Inl x \<Rightarrow> Inl x | Inr w' \<Rightarrow> run es w')"

text \<open>The parameters a call merges, for the four calls that merge their argument only.\<close>

fun merged :: "event \<Rightarrow> props option" where
  "merged (Get ps callback) = Some ps"
| "merged (Show ps callback) = Some ps"
| "merged (Post ps body callback) = Some ps"
| "merged (Update ps body callback) = Some ps"
| "merged _ = None"

text \<open>The one event that replaces the stored parameters wholesale.\<close>

fun replaces_params :: "event \<Rightarrow> bool" where
  "replaces_params (Params p) = True"
| "replaces_params _ = False"

text \<open>The world a call leaves, whether it returned or threw, and whether it returned.\<close>

definition world_of :: "(exn \<times> world) + world \<Rightarrow> world" where
  "world_of r = (case r of Inl (e, w) \<Rightarrow> w | Inr w \<Rightarrow> w)"

definition returned :: "(exn \<times> world) + world \<Rightarrow> bool" where
  "returned r = (case r of Inl x \<Rightarrow> False | Inr w \<Rightarrow> True)"

section \<open>A concrete environment\<close>

text \<open>
  A page at time 0 whose store holds what the application and the HTTP client will hand
  to the client: three error values, a reply with three records, and a spare empty
  object. Of the application's functions, \<open>f9\<close> throws the empty object whenever it is
  called; the others return.
\<close>

definition page_heap :: heap where
  "page_heap =
     [0 \<mapsto> Obj [''response'' \<mapsto> JRef 1],
      1 \<mapsto> Obj [''data'' \<mapsto> JRef 2],
      2 \<mapsto> Obj [''message'' \<mapsto> JStr ''Not found''],
      3 \<mapsto> Obj Map.empty,
      4 \<mapsto> Obj [''response'' \<mapsto> JRef 5],
      5 \<mapsto> Obj [''data'' \<mapsto> JRef 3],
      6 \<mapsto> Obj [''data'' \<mapsto> JRef 7],
      7 \<mapsto> Obj [''data'' \<mapsto> JRef 8, ''meta'' \<mapsto> JRef 3],
      8 \<mapsto> Arr [JRef 9, JRef 10, JRef 11],
      9 \<mapsto> Obj [''id'' \<mapsto> JNum 1],
      10 \<mapsto> Obj [''id'' \<mapsto> JNum 2],
      11 \<mapsto> Obj [''id'' \<mapsto> JNum 3]]"

definition page :: world where
  "page =
     \<lparr>client = \<lparr>p_route = [], p_params = JUndefined, p_meta = JUndefined, p_raw = JUndefined,
                 p_data = JUndefined, p_loading = False, p_saving = False, p_debounce = 0,
                 p_debouncing = None, p_callback = None\<rparr>,
      heap = page_heap, next_addr = 12, now = 0, last_handle = 0, timers = [],
      last_request = 0, pending = [], http = [], console = [], emitted = [], invoked = [],
      throws = (\<lambda>f r. if f = 9 then Some (JRef 3) else None)\<rparr>"

text \<open>
  \<^verbatim>\<open>new API('users', undefined, undefined, undefined, false)\<close> and
  \<^verbatim>\<open>new API('users')\<close> on that page: only the second fetches at once.
\<close>

definition quiet_client :: world where
  "quiet_client = world_of (new_API ''users'' JUndefined JUndefined JUndefined False page)"

definition autoloaded_client :: world where
  "autoloaded_client = world_of (new_API ''users'' JUndefined JUndefined JUndefined True page)"

text \<open>The first \<^verbatim>\<open>get()\<close> on the quiet client, and the moment its reply has arrived.\<close>

definition fetching :: world where
  "fetching = world_of (get Map.empty None quiet_client)"

definition first_fetch :: "event list" where
  "first_fetch = [Get Map.empty None, Elapse 0, Respond 1 (Fulfilled (JRef 6)), Elapse 5000]"

definition first_fetch_done :: world where
  "first_fetch_done = world_of (run first_fetch quiet_client)"

text \<open>
  \<^verbatim>\<open>api.onSuccess(f7).post({}, {}, f8)\<close> on the quiet client: the call is in flight.
\<close>

definition posting :: world where
  "posting = world_of (post Map.empty Map.empty (Some 8) (snd (onSuccess (Some 7) quiet_client)))"

text \<open>The same with \<open>f9\<close>, which throws, as the call's callback or as the registered one.\<close>

definition posting_second_throws :: world where
  "posting_second_throws =
     world_of (post Map.empty Map.empty (Some 9) (snd (onSuccess (Some 7) quiet_client)))"

definition posting_first_throws :: world where
  "posting_first_throws =
     world_of (post Map.empty Map.empty (Some 8) (snd (onSuccess (Some 9) quiet_client)))"

text \<open>
  The quiet client has loaded the three records and has called \<^verbatim>\<open>delete(2)\<close>: the
  call is in flight.
\<close>

definition load_and_delete :: "event list" where
  "load_and_delete =
     [Get Map.empty None, Elapse 0, Respond 1 (Fulfilled (JRef 6)),
      Delete (JNum 2) None Map.empty]"

definition deleting :: world where
  "deleting = world_of (run load_and_delete quiet_client)"

text \<open>
  The same on a page where the reply at address 12 lists a null between two records.
\<close>

definition page_with_null :: world where
  "page_with_null =
     page\<lparr>heap := (heap page)
              (12 \<mapsto> Obj [''data'' \<mapsto> JRef 13],
               13 \<mapsto> Obj [''data'' \<mapsto> JRef 14, ''meta'' \<mapsto> JRef 3],
               14 \<mapsto> Arr [JRef 9, JNull, JRef 10]),
          next_addr := 15\<rparr>"

definition load_null_and_delete :: "event list" where
  "load_null_and_delete =
     [Get Map.empty None, Elapse 0, Respond 1 (Fulfilled (JRef 12)),
      Delete (JNum 2) None Map.empty]"

definition deleting_with_null :: world where
  "deleting_with_null =
     world_of (run load_null_and_delete
       (world_of (new_API ''users'' JUndefined JUndefined JUndefined False page_with_null)))"

text \<open>Three merging calls on the quiet client.\<close>

definition three_calls :: "event list" where
  "three_calls =
     [Get [''page'' \<mapsto> JNum 1] None,
      Post [''q'' \<mapsto> JStr ''x''] Map.empty None,
      Show [''page'' \<mapsto> JNum 2] None]"

text \<open>
  What may follow \<^verbatim>\<open>delete(5)\<close> on the quiet client: further requests, or first
  \<^verbatim>\<open>params({})\<close> with the spare empty object.
\<close>

definition after_delete :: "event list" where
  "after_delete =
     [Get [''page'' \<mapsto> JNum 1] None, Elapse 0, Respond 2 (Fulfilled (JRef 6)),
      Respond 1 (Fulfilled (JRef 6)), Post Map.empty Map.empty None]"

definition after_delete_replaced :: "event list" where
  "after_delete_replaced = [Params (JRef 3), Get Map.empty None, Elapse 0]"

text \<open>Two fetches 500 ms apart on the quiet client, and time passing to 1500.\<close>

definition two_fetches :: "event list" where
  "two_fetches =
     [Get [''page'' \<mapsto> JNum 1] None, Elapse 500, Get [''page'' \<mapsto> JNum 2] None, Elapse 1500]"

text \<open>
  Two fetches 500 ms apart on the client whose first fetch is done (time 5000): the
  moment between them, and the moment after the second.
\<close>

definition burst_first :: world where
  "burst_first = world_of (get [''page'' \<mapsto> JNum 1] None first_fetch_done)"

definition burst_second :: world where
  "burst_second = world_of (get [''page'' \<mapsto> JNum 2] None (elapse 5500 burst_first))"

section \<open>Properties of the calls\<close>

text \<open>The definitions a concrete scenario is evaluated with.\<close>

lemmas api_defs =
  get_def show_req_def post_def update_def delete_def params_def data_def meta_def
  object_assign_def setTimeout_def clearTimeout_def axios_def alloc_def with_default_def
  new_API_def world_of_def returned_def elapse_def respond_def index_then_def show_then_def
  store_then_def store_catch_def update_then_def destroy_then_def invoke_def thrown_def
  props_of_def
  new_ApiException_def id_differs_def loading_def saving_def toString_def onSuccess_def
  page_def page_heap_def quiet_client_def autoloaded_client_def first_fetch_def
  load_and_delete_def page_with_null_def load_null_and_delete_def Let_def

subsection \<open>Reading properties\<close>

lemma get_prop_Inl: "get_prop h v k = Inl x \<Longrightarrow> x = TypeError"
  by (cases v) (auto split: option.splits cell.splits)

lemma get_prop_Inl_iff: "get_prop h v k = Inl TypeError \<longleftrightarrow> v = JNull \<or> v = JUndefined"
  by (cases v) (auto split: option.splits cell.splits)

lemma get_prop_id_Inr:
  "d \<noteq> JNull \<Longrightarrow> d \<noteq> JUndefined \<Longrightarrow> \<exists>v. get_prop h d k = Inr v"
  by (cases d) (auto split: option.splits cell.splits)

lemma get_prop_other_key:
  "get_prop h v k = Inr x \<Longrightarrow> \<exists>y. get_prop h v k' = Inr y"
  by (cases v) (auto split: option.splits cell.splits)

lemma get_prop_fresh:
  "h b = None \<Longrightarrow> get_prop (h(b \<mapsto> Arr ys)) d k = get_prop h d k"
  by (cases d) (auto split: option.splits cell.splits)

lemma get_path_Inl: "get_path h v ks = Inl x \<Longrightarrow> x = TypeError"
  by (induction ks arbitrary: v) (auto split: sum.splits dest: get_prop_Inl)

lemma get_path_body:
  assumes "get_path h r [''data'', ''data''] = Inr d"
  shows "\<exists>m raw. get_path h r [''data'', ''meta''] = Inr m \<and> get_path h r [''data''] = Inr raw"
proof -
  from assms obtain rd where rd: "get_prop h r ''data'' = Inr rd" and "get_prop h rd ''data'' = Inr d"
    by (auto split: sum.splits)
  then obtain m where "get_prop h rd ''meta'' = Inr m"
    using get_prop_other_key by blast
  with rd show ?thesis by simp
qed

subsection \<open>What a call that returns has done\<close>

lemma object_assign_Inr:
  "object_assign v srcs w = Inr w' \<Longrightarrow> \<exists>a m. v = JRef a \<and> heap w a = Some (Obj m)"
  by (auto simp: object_assign_def split: jsval.splits option.splits cell.splits)

lemma get_returns:
  assumes "p_params (client w) = JRef a" and "heap w a = Some (Obj m)"
  shows "get ps cb w =
     Inr (w\<lparr>client := (client w)\<lparr>p_loading := True, p_debouncing := Some (Suc (last_handle w))\<rparr>,
            heap := (heap w)(a \<mapsto> Obj (m ++ ps)),
            last_handle := Suc (last_handle w),
            timers := timers (clearTimeout (p_debouncing (client w)) w) @
              [\<lparr>t_handle = Suc (last_handle w),
                t_due = now w + (if handle_truthy (p_debouncing (client w))
                                 then p_debounce (client w) else 0),
                t_task = FetchIndex cb\<rparr>]\<rparr>)"
  using assms
  by (cases "p_debouncing (client w)")
     (simp_all add: get_def clearTimeout_def object_assign_def setTimeout_def params_def Let_def)

lemma show_returns:
  assumes "p_params (client w) = JRef a" and "heap w a = Some (Obj m)"
  shows "show_req ps cb w =
     Inr (w\<lparr>client := (client w)\<lparr>p_loading := True, p_debouncing := Some (Suc (last_handle w))\<rparr>,
            heap := (heap w)(a \<mapsto> Obj (m ++ ps)),
            last_handle := Suc (last_handle w),
            timers := timers (clearTimeout (p_debouncing (client w)) w) @
              [\<lparr>t_handle = Suc (last_handle w),
                t_due = now w + (if handle_truthy (p_debouncing (client w))
                                 then p_debounce (client w) else 0),
                t_task = FetchShow cb\<rparr>]\<rparr>)"
  using assms
  by (cases "p_debouncing (client w)")
     (simp_all add: show_req_def clearTimeout_def object_assign_def setTimeout_def params_def Let_def)

lemma post_returns:
  assumes "p_params (client w) = JRef a" and "heap w a = Some (Obj m)"
  shows "post ps body cb w =
     Inr (w\<lparr>client := (client w)\<lparr>p_saving := True\<rparr>,
            heap := (heap w)(a \<mapsto> Obj (m ++ ps)),
            last_request := Suc (last_request w),
            http := http w @ [\<lparr>r_verb = POST, r_name = p_route (client w) @ ''.store'',
                               r_params = m ++ ps, r_body = Some body\<rparr>],
            pending := pending w @ [(Suc (last_request w), StoreThen cb)]\<rparr>)"
  using assms
  by (simp add: post_def object_assign_def axios_def params_def props_of_def Let_def)

lemma update_returns:
  assumes "p_params (client w) = JRef a" and "heap w a = Some (Obj m)"
  shows "update ps body cb w =
     Inr (w\<lparr>client := (client w)\<lparr>p_saving := True\<rparr>,
            heap := (heap w)(a \<mapsto> Obj (m ++ ps)),
            last_request := Suc (last_request w),
            http := http w @ [\<lparr>r_verb = PUT, r_name = p_route (client w) @ ''.update'',
                               r_params = m ++ ps, r_body = Some body\<rparr>],
            pending := pending w @ [(Suc (last_request w), UpdateThen cb)]\<rparr>)"
  using assms
  by (simp add: update_def object_assign_def axios_def params_def props_of_def Let_def)

lemma delete_returns:
  assumes "p_params (client w) = JRef a" and "heap w a = Some (Obj m)"
  shows "delete x cb ps w =
     Inr (w\<lparr>heap := (heap w)(a \<mapsto> Obj (m ++ ps ++ [''id'' \<mapsto> x])),
            last_request := Suc (last_request w),
            http := http w @ [\<lparr>r_verb = DELETE, r_name = p_route (client w) @ ''.destroy'',
                               r_params = m ++ ps ++ [''id'' \<mapsto> x], r_body = None\<rparr>],
            pending := pending w @ [(Suc (last_request w), DestroyThen x cb)],
            client := client w\<rparr>)"
  using assms
  by (simp add: delete_def object_assign_def axios_def params_def props_of_def Let_def)

lemma get_Inr_params:
  "get ps cb w = Inr w' \<Longrightarrow> \<exists>a m. p_params (client w) = JRef a \<and> heap w a = Some (Obj m)"
  by (cases "p_debouncing (client w)")
     (auto simp: get_def clearTimeout_def Let_def split: sum.splits dest!: object_assign_Inr)

lemma show_Inr_params:
  "show_req ps cb w = Inr w' \<Longrightarrow> \<exists>a m. p_params (client w) = JRef a \<and> heap w a = Some (Obj m)"
  by (cases "p_debouncing (client w)")
     (auto simp: show_req_def clearTimeout_def Let_def split: sum.splits dest!: object_assign_Inr)

lemma post_Inr_params:
  "post ps body cb w = Inr w' \<Longrightarrow> \<exists>a m. p_params (client w) = JRef a \<and> heap w a = Some (Obj m)"
  by (auto simp: post_def Let_def split: sum.splits dest!: object_assign_Inr)

lemma update_Inr_params:
  "update ps body cb w = Inr w' \<Longrightarrow> \<exists>a m. p_params (client w) = JRef a \<and> heap w a = Some (Obj m)"
  by (auto simp: update_def Let_def split: sum.splits dest!: object_assign_Inr)

lemma delete_Inr_params:
  "delete x cb ps w = Inr w' \<Longrightarrow> \<exists>a m. p_params (client w) = JRef a \<and> heap w a = Some (Obj m)"
  by (auto simp: delete_def Let_def split: sum.splits dest!: object_assign_Inr)

lemma get_sets_loading: "get ps cb w = Inr w1 \<Longrightarrow> loading w1"
  by (cases "p_debouncing (client w)")
     (auto simp: get_def loading_def clearTimeout_def object_assign_def setTimeout_def params_def
        Let_def split: sum.splits jsval.splits option.splits cell.splits)

lemma show_sets_loading: "show_req ps cb w = Inr w1 \<Longrightarrow> loading w1"
  by (cases "p_debouncing (client w)")
     (auto simp: show_req_def loading_def clearTimeout_def object_assign_def setTimeout_def
        params_def Let_def split: sum.splits jsval.splits option.splits cell.splits)

lemma get_throws: "get ps cb w = Inr w1 \<Longrightarrow> throws w1 = throws w"
  by (cases "p_debouncing (client w)")
     (auto simp: get_def clearTimeout_def object_assign_def setTimeout_def params_def
        Let_def split: sum.splits jsval.splits option.splits cell.splits)

lemma show_throws: "show_req ps cb w = Inr w1 \<Longrightarrow> throws w1 = throws w"
  by (cases "p_debouncing (client w)")
     (auto simp: show_req_def clearTimeout_def object_assign_def setTimeout_def
        params_def Let_def split: sum.splits jsval.splits option.splits cell.splits)

lemma post_in_flight:
  assumes "post ps body cb w = Inr w1" and "\<forall>p \<in> set (pending w). fst p \<le> last_request w"
  shows "map_of (pending w1) (Suc (last_request w)) = Some (StoreThen cb)"
proof -
  from assms(1) obtain a m where pm: "p_params (client w) = JRef a" "heap w a = Some (Obj m)"
    using post_Inr_params by blast
  have p: "pending w1 = pending w @ [(Suc (last_request w), StoreThen cb)]"
    using post_returns[OF pm, of ps body cb] assms(1) by auto
  have "map_of (pending w) (Suc (last_request w)) = None"
    using assms(2) by (force simp: map_of_eq_None_iff)
  then show ?thesis by (simp add: p map_add_def)
qed

lemma merging_step:
  assumes "p_params (client w) = JRef a" and "heap w a = Some (Obj m)" and "merged e = Some ps"
  shows "\<exists>w1. step e w = Inr w1 \<and> p_params (client w1) = JRef a \<and>
              heap w1 a = Some (Obj (m ++ ps))"
proof (cases e)
  case (Get ps' cb)
  with assms(1,3) show ?thesis by (simp add: get_returns[OF assms(1,2)])
next
  case (Show ps' cb)
  with assms(1,3) show ?thesis by (simp add: show_returns[OF assms(1,2)])
next
  case (Post ps' body cb)
  with assms(1,3) show ?thesis by (simp add: post_returns[OF assms(1,2)])
next
  case (Update ps' body cb)
  with assms(1,3) show ?thesis by (simp add: update_returns[OF assms(1,2)])
qed (use assms(3) in simp_all)

lemma new_API_without_autoload:
  assumes "new_API route init ps mt False w = Inr w'"
  shows "\<not> loading w' \<and> \<not> saving w' \<and> p_debouncing (client w') = None \<and>
         p_debounce (client w') = 1000 \<and> timers w' = timers w \<and> pending w' = pending w \<and>
         http w' = http w"
  using assms
  by (auto simp: new_API_def with_default_def alloc_def data_def meta_def loading_def saving_def
      Let_def split: if_splits sum.splits prod.splits)

subsection \<open>Timers\<close>

lemma clearTimeout_nil:
  "timers w = [] \<Longrightarrow> timers (clearTimeout h w) = []"
  by (simp add: clearTimeout_def split: option.splits)

lemma run_tasks_frame:
  "client (foldl (\<lambda>w' tm. run_task (t_task tm) w') w tms) = client w \<and>
   heap (foldl (\<lambda>w' tm. run_task (t_task tm) w') w tms) = heap w \<and>
   next_addr (foldl (\<lambda>w' tm. run_task (t_task tm) w') w tms) = next_addr w \<and>
   throws (foldl (\<lambda>w' tm. run_task (t_task tm) w') w tms) = throws w"
proof (induction tms arbitrary: w)
  case Nil
  show ?case by simp
next
  case (Cons tm tms)
  have "client (run_task (t_task tm) w) = client w \<and> heap (run_task (t_task tm) w) = heap w
     \<and> next_addr (run_task (t_task tm) w) = next_addr w
     \<and> throws (run_task (t_task tm) w) = throws w"
    by (cases "t_task tm") (simp_all add: axios_def Let_def)
  with Cons.IH[of "run_task (t_task tm) w"] show ?case by simp
qed

lemma run_tasks_http:
  "\<exists>new. http (foldl (\<lambda>w' tm. run_task (t_task tm) w') w tms) = http w @ new \<and>
         (\<forall>q \<in> set new. r_params q = props_of (heap w) (p_params (client w)))"
proof (induction tms arbitrary: w)
  case Nil
  show ?case by simp
next
  case (Cons tm tms)
  let ?w1 = "run_task (t_task tm) w"
  have f: "client ?w1 = client w" "heap ?w1 = heap w"
    by (cases "t_task tm"; simp add: axios_def Let_def)+
  have h: "\<exists>q. http ?w1 = http w @ [q] \<and> r_params q = props_of (heap w) (p_params (client w))"
    by (cases "t_task tm") (simp_all add: axios_def Let_def)
  from Cons.IH[of ?w1] f h show ?case by auto
qed

lemma elapse_frame:
  "client (elapse t w) = client w" "heap (elapse t w) = heap w"
  "next_addr (elapse t w) = next_addr w" "throws (elapse t w) = throws w"
  by (simp_all add: elapse_def run_tasks_frame)

lemma elapse_loading: "loading (elapse t w) = loading w"
  by (simp add: loading_def elapse_frame)

lemma elapse_http:
  "\<exists>new. http (elapse t w) = http w @ new \<and>
         (\<forall>q \<in> set new. r_params q = props_of (heap w) (p_params (client w)))"
  using run_tasks_http[of "w\<lparr>now := max (now w) t, timers := filter (\<lambda>tm. \<not> t_due tm \<le> t) (timers w)\<rparr>"
      "sort_key t_due (filter (\<lambda>tm. t_due tm \<le> t) (timers w))"]
  by (simp add: elapse_def)

lemma elapse_early:
  assumes "\<forall>tm \<in> set (timers w). t < t_due tm"
  shows "elapse t w = w\<lparr>now := max (now w) t\<rparr>"
proof -
  have 1: "filter (\<lambda>tm. t_due tm \<le> t) (timers w) = []"
    using assms by (auto simp: filter_empty_conv)
  have 2: "filter (\<lambda>tm. \<not> t_due tm \<le> t) (timers w) = timers w"
    using assms by (auto simp: filter_id_conv)
  show ?thesis by (simp add: elapse_def 1 2)
qed

lemma elapse_early_http:
  assumes "\<forall>tm \<in> set (timers w). t < t_due tm"
  shows "http (elapse t w) = http w"
  by (simp add: elapse_early[OF assms])

lemma elapse_single:
  assumes "timers w = [tm]" and "t_due tm \<le> t"
  shows "elapse t w = run_task (t_task tm) (w\<lparr>now := max (now w) t, timers := []\<rparr>)"
  using assms by (simp add: elapse_def)

lemma get_fired:
  assumes "timers (clearTimeout (p_debouncing (client w)) w) = []" and "get ps cb w = Inr w1"
    and "now w + (if handle_truthy (p_debouncing (client w)) then p_debounce (client w) else 0) \<le> t"
  shows "pending (elapse t w1) = pending w @ [(Suc (last_request w), IndexThen cb)]"
    and "timers (elapse t w1) = []"
    and "http (elapse t w1) = http w @
           [\<lparr>r_verb = GET, r_name = p_route (client w) @ ''.index'',
             r_params = props_of (heap w1) (p_params (client w1)), r_body = None\<rparr>]"
proof -
  from assms(2) obtain a m where pm: "p_params (client w) = JRef a" "heap w a = Some (Obj m)"
    using get_Inr_params by blast
  have w1: "w1 = w\<lparr>client := (client w)\<lparr>p_loading := True, p_debouncing := Some (Suc (last_handle w))\<rparr>,
            heap := (heap w)(a \<mapsto> Obj (m ++ ps)),
            last_handle := Suc (last_handle w),
            timers := timers (clearTimeout (p_debouncing (client w)) w) @
              [\<lparr>t_handle = Suc (last_handle w),
                t_due = now w + (if handle_truthy (p_debouncing (client w))
                                 then p_debounce (client w) else 0),
                t_task = FetchIndex cb\<rparr>]\<rparr>"
    using get_returns[OF pm, of ps cb] assms(2) by simp
  have ct: "timers (clearTimeout (p_debouncing (client w)) w) = []"
    using assms(1) .
  have tm: "timers w1 = [\<lparr>t_handle = Suc (last_handle w),
                t_due = now w + (if handle_truthy (p_debouncing (client w))
                                 then p_debounce (client w) else 0),
                t_task = FetchIndex cb\<rparr>]"
    by (simp add: w1 ct)
  have e: "elapse t w1 = run_task (FetchIndex cb) (w1\<lparr>now := max (now w1) t, timers := []\<rparr>)"
    using elapse_single[OF tm, of t] assms(3) by simp
  show "pending (elapse t w1) = pending w @ [(Suc (last_request w), IndexThen cb)]"
    by (simp add: e axios_def Let_def) (simp add: w1)
  show "timers (elapse t w1) = []"
    by (simp add: e axios_def Let_def)
  show "http (elapse t w1) = http w @
           [\<lparr>r_verb = GET, r_name = p_route (client w) @ ''.index'',
             r_params = props_of (heap w1) (p_params (client w1)), r_body = None\<rparr>]"
    by (simp add: e axios_def Let_def) (simp add: w1)
qed

lemma show_fired:
  assumes "timers (clearTimeout (p_debouncing (client w)) w) = []" and "show_req ps cb w = Inr w1"
    and "now w + (if handle_truthy (p_debouncing (client w)) then p_debounce (client w) else 0) \<le> t"
  shows "pending (elapse t w1) = pending w @ [(Suc (last_request w), ShowThen cb)]"
    and "timers (elapse t w1) = []"
    and "http (elapse t w1) = http w @
           [\<lparr>r_verb = GET, r_name = p_route (client w) @ ''.show'',
             r_params = props_of (heap w1) (p_params (client w1)), r_body = None\<rparr>]"
proof -
  from assms(2) obtain a m where pm: "p_params (client w) = JRef a" "heap w a = Some (Obj m)"
    using show_Inr_params by blast
  have w1: "w1 = w\<lparr>client := (client w)\<lparr>p_loading := True, p_debouncing := Some (Suc (last_handle w))\<rparr>,
            heap := (heap w)(a \<mapsto> Obj (m ++ ps)),
            last_handle := Suc (last_handle w),
            timers := timers (clearTimeout (p_debouncing (client w)) w) @
              [\<lparr>t_handle = Suc (last_handle w),
                t_due = now w + (if handle_truthy (p_debouncing (client w))
                                 then p_debounce (client w) else 0),
                t_task = FetchShow cb\<rparr>]\<rparr>"
    using show_returns[OF pm, of ps cb] assms(2) by simp
  have ct: "timers (clearTimeout (p_debouncing (client w)) w) = []"
    using assms(1) .
  have tm: "timers w1 = [\<lparr>t_handle = Suc (last_handle w),
                t_due = now w + (if handle_truthy (p_debouncing (client w))
                                 then p_debounce (client w) else 0),
                t_task = FetchShow cb\<rparr>]"
    by (simp add: w1 ct)
  have e: "elapse t w1 = run_task (FetchShow cb) (w1\<lparr>now := max (now w1) t, timers := []\<rparr>)"
    using elapse_single[OF tm, of t] assms(3) by simp
  show "pending (elapse t w1) = pending w @ [(Suc (last_request w), ShowThen cb)]"
    by (simp add: e axios_def Let_def) (simp add: w1)
  show "timers (elapse t w1) = []"
    by (simp add: e axios_def Let_def)
  show "http (elapse t w1) = http w @
           [\<lparr>r_verb = GET, r_name = p_route (client w) @ ''.show'',
             r_params = props_of (heap w1) (p_params (client w1)), r_body = None\<rparr>]"
    by (simp add: e axios_def Let_def) (simp add: w1)
qed

subsection \<open>Replies\<close>

lemma invoke_frame:
  "client (invoke f r w) = client w" "heap (invoke f r w) = heap w"
  "timers (invoke f r w) = timers w" "pending (invoke f r w) = pending w"
  "http (invoke f r w) = http w" "throws (invoke f r w) = throws w"
  "next_addr (invoke f r w) = next_addr w" "console (invoke f r w) = console w"
  "emitted (invoke f r w) = emitted w"
  by (cases f; simp add: invoke_def)+

lemma thrown_throws: "throws w' = throws w \<Longrightarrow> thrown f r w' = thrown f r w"
  by (cases f) (simp_all add: thrown_def)

lemma store_catch_frame:
  assumes "store_catch v w = (x, w')"
  shows "client w' = client w" "heap w' = heap w" "http w' = http w"
    "next_addr w' = next_addr w" "invoked w' = invoked w" "console w' = console w @ [v]"
    "x \<noteq> None"
  using assms
  by (auto simp: store_catch_def new_ApiException_def Let_def split: sum.splits)

lemma respond_single:
  "pending w = [(rid, k)] \<Longrightarrow> respond rid rep w = settle k rep (w\<lparr>pending := []\<rparr>)"
  by (simp add: respond_def)

lemma index_then_loading:
  assumes "get_path (heap w) r [''data'', ''data''] = Inr d"
  shows "fst (index_then cb r w) = map_option Raised (thrown cb r w)"
    and "\<not> loading (snd (index_then cb r w))"
proof -
  from get_path_body[OF assms] obtain m where
    m: "get_path (heap w) r [''data'', ''meta''] = Inr m" by blast
  show "fst (index_then cb r w) = map_option Raised (thrown cb r w)"
    using assms m
    by (cases cb) (simp_all add: index_then_def Let_def thrown_def del: get_path.simps)
  show "\<not> loading (snd (index_then cb r w))"
    using assms m by (simp add: index_then_def Let_def loading_def invoke_frame del: get_path.simps)
qed

lemma show_then_loading:
  assumes "get_path (heap w) r [''data'', ''data''] = Inr d"
  shows "fst (show_then cb r w) = map_option Raised (thrown cb r w)"
    and "\<not> loading (snd (show_then cb r w))"
proof -
  from get_path_body[OF assms] obtain m raw where
    m: "get_path (heap w) r [''data'', ''meta''] = Inr m" "get_path (heap w) r [''data''] = Inr raw"
    by blast
  show "fst (show_then cb r w) = map_option Raised (thrown cb r w)"
    using assms m
    by (cases cb) (simp_all add: show_then_def Let_def thrown_def del: get_path.simps)
  show "\<not> loading (snd (show_then cb r w))"
    using assms m by (simp add: show_then_def Let_def loading_def invoke_frame del: get_path.simps)
qed

lemma get_window:
  assumes "timers w = []" and "pending w = []" and "get ps cb w = Inr w1"
    and "now w + (if handle_truthy (p_debouncing (client w)) then p_debounce (client w) else 0) \<le> t"
    and "get_path (heap w1) r [''data'', ''data''] = Inr d"
  shows "respond (Suc (last_request w)) (Fulfilled r) (elapse t w1) =
           index_then cb r ((elapse t w1)\<lparr>pending := []\<rparr>)"
    and "respond (Suc (last_request w)) (Rejected e) (elapse t w1) =
           (Some (Rejection e), (elapse t w1)\<lparr>pending := []\<rparr>)"
proof -
  have p: "pending (elapse t w1) = [(Suc (last_request w), IndexThen cb)]"
    using get_fired(1)[OF clearTimeout_nil[OF assms(1)] assms(3,4)] assms(2) by simp
  show "respond (Suc (last_request w)) (Fulfilled r) (elapse t w1) =
           index_then cb r ((elapse t w1)\<lparr>pending := []\<rparr>)"
    by (simp add: respond_single[OF p])
  show "respond (Suc (last_request w)) (Rejected e) (elapse t w1) =
           (Some (Rejection e), (elapse t w1)\<lparr>pending := []\<rparr>)"
    by (simp add: respond_single[OF p])
qed

lemma show_window:
  assumes "timers w = []" and "pending w = []" and "show_req ps cb w = Inr w1"
    and "now w + (if handle_truthy (p_debouncing (client w)) then p_debounce (client w) else 0) \<le> t"
  shows "respond (Suc (last_request w)) (Fulfilled r) (elapse t w1) =
           show_then cb r ((elapse t w1)\<lparr>pending := []\<rparr>)"
    and "respond (Suc (last_request w)) (Rejected e) (elapse t w1) =
           (Some (Rejection e), (elapse t w1)\<lparr>pending := []\<rparr>)"
proof -
  have p: "pending (elapse t w1) = [(Suc (last_request w), ShowThen cb)]"
    using show_fired(1)[OF clearTimeout_nil[OF assms(1)] assms(3,4)] assms(2) by simp
  show "respond (Suc (last_request w)) (Fulfilled r) (elapse t w1) =
           show_then cb r ((elapse t w1)\<lparr>pending := []\<rparr>)"
    by (simp add: respond_single[OF p])
  show "respond (Suc (last_request w)) (Rejected e) (elapse t w1) =
           (Some (Rejection e), (elapse t w1)\<lparr>pending := []\<rparr>)"
    by (simp add: respond_single[OF p])
qed

lemma filter_js_null:
  assumes "\<exists>d \<in> set ds. d = JNull \<or> d = JUndefined"
  shows "filter_js (id_differs h x) ds = Inl TypeError"
  using assms
proof (induction ds)
  case Nil
  then show ?case by simp
next
  case (Cons d ds)
  show ?case
  proof (cases "d = JNull \<or> d = JUndefined")
    case True
    then have "id_differs h x d = Inl TypeError" by (auto simp: id_differs_def)
    then show ?thesis by simp
  next
    case False
    with Cons.prems have "\<exists>d \<in> set ds. d = JNull \<or> d = JUndefined" by auto
    then have t: "filter_js (id_differs h x) ds = Inl TypeError" by (rule Cons.IH)
    from False obtain v where "get_prop h d ''id'' = Inr v"
      using get_prop_id_Inr[of d h "''id''"] by auto
    then have "id_differs h x d = Inr (v \<noteq> x)" by (simp add: id_differs_def)
    with t show ?thesis by simp
  qed
qed

lemma filter_js_filter:
  assumes "\<forall>d \<in> set ds. d \<noteq> JNull \<and> d \<noteq> JUndefined"
  shows "filter_js (id_differs h x) ds = Inr (filter (\<lambda>d. get_prop h d ''id'' \<noteq> Inr x) ds)"
  using assms
proof (induction ds)
  case Nil
  show ?case by simp
next
  case (Cons d ds)
  then obtain v where v: "get_prop h d ''id'' = Inr v"
    using get_prop_id_Inr[of d h "''id''"] by auto
  from Cons have "filter_js (id_differs h x) ds = Inr (filter (\<lambda>d. get_prop h d ''id'' \<noteq> Inr x) ds)"
    by simp
  moreover have "id_differs h x d = Inr (v \<noteq> x)"
    using v by (simp add: id_differs_def)
  ultimately show ?case using v by simp
qed

lemma settle_frame:
  assumes "settle k rep w = (x, w')"
  shows "p_params (client w') = p_params (client w) \<and> http w' = http w \<and>
         next_addr w \<le> next_addr w' \<and> (\<forall>b < next_addr w. heap w' b = heap w b) \<and>
         p_debouncing (client w') = p_debouncing (client w)"
proof (cases rep)
  case (Rejected e)
  show ?thesis
  proof (cases k)
    case (StoreThen cb)
    with Rejected assms show ?thesis
      by (auto simp: store_catch_def new_ApiException_def Let_def split: sum.splits)
  qed (use Rejected assms in auto)
next
  case (Fulfilled r)
  show ?thesis
  proof (cases k)
    case (IndexThen cb)
    with Fulfilled assms show ?thesis
      by (auto simp: index_then_def Let_def invoke_frame invoke_def split: sum.splits option.splits)
  next
    case (ShowThen cb)
    with Fulfilled assms show ?thesis
      by (auto simp: show_then_def Let_def invoke_def split: sum.splits option.splits)
  next
    case (StoreThen cb)
    show ?thesis
    proof (cases "store_then cb r w")
      case (Pair t w1)
      then have f: "p_params (client w1) = p_params (client w)" "http w1 = http w"
        "next_addr w1 = next_addr w" "heap w1 = heap w"
        "p_debouncing (client w1) = p_debouncing (client w)"
        by (auto simp: store_then_def Let_def invoke_frame split: option.splits)
      show ?thesis
      proof (cases t)
        case None
        with Pair StoreThen Fulfilled assms f show ?thesis by simp
      next
        case (Some v)
        with Pair StoreThen Fulfilled assms have "store_catch v w1 = (x, w')" by simp
        from store_catch_frame(1-4)[OF this] f show ?thesis by simp
      qed
    qed
  next
    case (UpdateThen cb)
    with Fulfilled assms show ?thesis
      by (auto simp: update_then_def Let_def invoke_def split: option.splits)
  next
    case (DestroyThen y cb)
    with Fulfilled assms show ?thesis
      by (auto simp: destroy_then_def data_def alloc_def Let_def invoke_def
          split: sum.splits option.splits jsval.splits cell.splits ret.splits prod.splits if_splits)
  qed
qed

lemma respond_frame:
  assumes "respond rid rep w = (x, w')"
  shows "p_params (client w') = p_params (client w) \<and> http w' = http w \<and>
         next_addr w \<le> next_addr w' \<and> (\<forall>b < next_addr w. heap w' b = heap w b) \<and>
         p_debouncing (client w') = p_debouncing (client w)"
proof (cases "map_of (pending w) rid")
  case None
  with assms show ?thesis by (simp add: respond_def)
next
  case (Some k)
  with assms have "settle k rep (w\<lparr>pending := filter (\<lambda>p. fst p \<noteq> rid) (pending w)\<rparr>) = (x, w')"
    by (simp add: respond_def)
  from settle_frame[OF this] show ?thesis by simp
qed

subsection \<open>What a sequence of events keeps\<close>

lemma id_key_step:
  assumes "p_params (client w) = JRef a" and "heap w a = Some (Obj m)" and "''id'' \<in> dom m"
    and "a < next_addr w" and "\<not> replaces_params e"
  shows "\<exists>w1 new m1. step e w = Inr w1 \<and> http w1 = http w @ new \<and>
           (\<forall>q \<in> set new. ''id'' \<in> dom (r_params q)) \<and>
           p_params (client w1) = JRef a \<and> heap w1 a = Some (Obj m1) \<and> ''id'' \<in> dom m1 \<and>
           a < next_addr w1"
proof (cases e)
  case (Get ps cb)
  with assms show ?thesis by (simp add: get_returns[OF assms(1,2)])
next
  case (Show ps cb)
  with assms show ?thesis by (simp add: show_returns[OF assms(1,2)])
next
  case (Post ps body cb)
  with assms show ?thesis by (simp add: post_returns[OF assms(1,2)])
next
  case (Update ps body cb)
  with assms show ?thesis by (simp add: update_returns[OF assms(1,2)])
next
  case (Delete x cb ps)
  with assms show ?thesis by (simp add: delete_returns[OF assms(1,2)])
next
  case (Params p)
  with assms(5) show ?thesis by simp
next
  case (Elapse t)
  from elapse_http[of t w] obtain new where
    n: "http (elapse t w) = http w @ new"
       "\<forall>q \<in> set new. r_params q = props_of (heap w) (p_params (client w))"
    by blast
  have "props_of (heap w) (p_params (client w)) = m"
    using assms(1,2) by (simp add: props_of_def)
  with n assms Elapse show ?thesis by (simp add: elapse_frame)
next
  case (Respond rid rep)
  obtain x w' where r: "respond rid rep w = (x, w')" by (cases "respond rid rep w")
  from respond_frame[OF r] assms r Respond show ?thesis by simp
qed

lemma id_key_persists:
  assumes "p_params (client w) = JRef a" and "heap w a = Some (Obj m)" and "''id'' \<in> dom m"
    and "a < next_addr w" and "\<forall>e \<in> set es. \<not> replaces_params e"
  shows "\<exists>w2 new. run es w = Inr w2 \<and> http w2 = http w @ new \<and>
           (\<forall>q \<in> set new. ''id'' \<in> dom (r_params q))"
  using assms
proof (induction es arbitrary: w m)
  case Nil
  show ?case by simp
next
  case (Cons e es)
  from Cons.prems(5) have e: "\<not> replaces_params e" and es: "\<forall>e \<in> set es. \<not> replaces_params e"
    by simp_all
  from id_key_step[OF Cons.prems(1-4) e] obtain w1 new1 m1 where
    s: "step e w = Inr w1" "http w1 = http w @ new1" "\<forall>q \<in> set new1. ''id'' \<in> dom (r_params q)"
       "p_params (client w1) = JRef a" "heap w1 a = Some (Obj m1)" "''id'' \<in> dom m1"
       "a < next_addr w1"
    by blast
  from Cons.IH[OF s(4-7) es] obtain w2 new2 where
    r: "run es w1 = Inr w2" "http w2 = http w1 @ new2" "\<forall>q \<in> set new2. ''id'' \<in> dom (r_params q)"
    by blast
  have "run (e # es) w = Inr w2" using s(1) r(1) by simp
  moreover have "http w2 = http w @ (new1 @ new2)" using s(2) r(2) by simp
  moreover have "\<forall>q \<in> set (new1 @ new2). ''id'' \<in> dom (r_params q)" using s(3) r(3) by auto
  ultimately show ?case by blast
qed

lemma step_keeps_handle:
  assumes "step e w = Inr w1" and "handle_truthy (p_debouncing (client w))"
  shows "handle_truthy (p_debouncing (client w1))"
proof (cases e)
  case (Get ps cb)
  with assms(1) have g: "get ps cb w = Inr w1" by simp
  from get_Inr_params[OF g] obtain a m where "p_params (client w) = JRef a" "heap w a = Some (Obj m)"
    by blast
  from get_returns[OF this, of ps cb] g show ?thesis by auto
next
  case (Show ps cb)
  with assms(1) have g: "show_req ps cb w = Inr w1" by simp
  from show_Inr_params[OF g] obtain a m where "p_params (client w) = JRef a" "heap w a = Some (Obj m)"
    by blast
  from show_returns[OF this, of ps cb] g show ?thesis by auto
next
  case (Post ps body cb)
  with assms(1) have g: "post ps body cb w = Inr w1" by simp
  from post_Inr_params[OF g] obtain a m where "p_params (client w) = JRef a" "heap w a = Some (Obj m)"
    by blast
  from post_returns[OF this, of ps body cb] g assms(2) show ?thesis by auto
next
  case (Update ps body cb)
  with assms(1) have g: "update ps body cb w = Inr w1" by simp
  from update_Inr_params[OF g] obtain a m where "p_params (client w) = JRef a" "heap w a = Some (Obj m)"
    by blast
  from update_returns[OF this, of ps body cb] g assms(2) show ?thesis by auto
next
  case (Delete x cb ps)
  with assms(1) have g: "delete x cb ps w = Inr w1" by simp
  from delete_Inr_params[OF g] obtain a m where "p_params (client w) = JRef a" "heap w a = Some (Obj m)"
    by blast
  from delete_returns[OF this, of x cb ps] g assms(2) show ?thesis by auto
next
  case (Params p)
  with assms show ?thesis by (auto simp: params_def)
next
  case (Elapse t)
  with assms show ?thesis by (auto simp: elapse_frame)
next
  case (Respond rid rep)
  obtain x w' where r: "respond rid rep w = (x, w')" by (cases "respond rid rep w")
  from respond_frame[OF r] assms r Respond show ?thesis by auto
qed

lemma handle_stays_set:
  assumes "run es w = Inr w'" and "handle_truthy (p_debouncing (client w))"
  shows "handle_truthy (p_debouncing (client w'))"
  using assms
proof (induction es arbitrary: w)
  case Nil
  then show ?case by simp
next
  case (Cons e es)
  from Cons.prems(1) obtain w1 where s: "step e w = Inr w1" and r: "run es w1 = Inr w'"
    by (auto split: sum.splits)
  from Cons.IH[OF r step_keeps_handle[OF s Cons.prems(2)]] show ?case .
qed

subsection \<open>The constructor with autoload, and the scenarios\<close>

lemma autoload_fetches_at_once:
  "loading autoloaded_client \<and> p_debouncing (client autoloaded_client) = Some 1 \<and>
   timers autoloaded_client = [\<lparr>t_handle = 1, t_due = 0, t_task = FetchIndex None\<rparr>] \<and>
   http (elapse 0 autoloaded_client) =
     [\<lparr>r_verb = GET, r_name = ''users.index'', r_params = Map.empty, r_body = None\<rparr>]"
  by (simp add: api_defs)

lemma scenarios_return:
  "returned (new_API ''users'' JUndefined JUndefined JUndefined False page)"
  "returned (new_API ''users'' JUndefined JUndefined JUndefined True page)"
  "returned (run first_fetch quiet_client)"
  "returned (post Map.empty Map.empty (Some 8) (snd (onSuccess (Some 7) quiet_client)))"
  "returned (run load_and_delete quiet_client)"
  "returned (get [''page'' \<mapsto> JNum 1] None first_fetch_done)"
  "returned (get [''page'' \<mapsto> JNum 2] None (elapse 5500 burst_first))"
  by (simp_all add: burst_first_def first_fetch_done_def api_defs)

section \<open>The claims\<close>

subsection \<open>The debounce delay\<close>

text \<open>
  C1, as amended. A call of \<^verbatim>\<open>get\<close> or \<^verbatim>\<open>show\<close> that returns schedules its timer
  with delay 0 exactly when the stored handle \<^verbatim>\<open>this._debouncing\<close> is null (or 0), and
  with the configured debounce duration when the handle is a number: the test reads the
  handle, not whether its timer is still pending. The call stores the new, positive
  handle, and nothing in the class sets the handle back to null, so only the first fetch
  of a client (the constructor's own, under autoload) has delay 0.
\<close>

theorem fetch_delay:
  "(get ps cb w = Inr w1 \<longrightarrow>
      p_debouncing (client w1) = Some (Suc (last_handle w)) \<and>
      timers w1 = timers (clearTimeout (p_debouncing (client w)) w) @
        [\<lparr>t_handle = Suc (last_handle w),
          t_due = now w + (case p_debouncing (client w) of
                             None \<Rightarrow> 0
                           | Some h \<Rightarrow> if h = 0 then 0 else p_debounce (client w)),
          t_task = FetchIndex cb\<rparr>]) \<and>
   (show_req ps cb w = Inr w2 \<longrightarrow>
      p_debouncing (client w2) = Some (Suc (last_handle w)) \<and>
      timers w2 = timers (clearTimeout (p_debouncing (client w)) w) @
        [\<lparr>t_handle = Suc (last_handle w),
          t_due = now w + (case p_debouncing (client w) of
                             None \<Rightarrow> 0
                           | Some h \<Rightarrow> if h = 0 then 0 else p_debounce (client w)),
          t_task = FetchShow cb\<rparr>])"
proof (intro conjI impI)
  assume g: "get ps cb w = Inr w1"
  then obtain a m where "p_params (client w) = JRef a" "heap w a = Some (Obj m)"
    using get_Inr_params by blast
  from get_returns[OF this, of ps cb] g
  have w1: "w1 = w\<lparr>client := (client w)\<lparr>p_loading := True, p_debouncing := Some (Suc (last_handle w))\<rparr>,
            heap := (heap w)(a \<mapsto> Obj (m ++ ps)),
            last_handle := Suc (last_handle w),
            timers := timers (clearTimeout (p_debouncing (client w)) w) @
              [\<lparr>t_handle = Suc (last_handle w),
                t_due = now w + (if handle_truthy (p_debouncing (client w))
                                 then p_debounce (client w) else 0),
                t_task = FetchIndex cb\<rparr>]\<rparr>" by simp
  show "p_debouncing (client w1) = Some (Suc (last_handle w))" by (simp add: w1)
  show "timers w1 = timers (clearTimeout (p_debouncing (client w)) w) @
        [\<lparr>t_handle = Suc (last_handle w),
          t_due = now w + (case p_debouncing (client w) of
                             None \<Rightarrow> 0
                           | Some h \<Rightarrow> if h = 0 then 0 else p_debounce (client w)),
          t_task = FetchIndex cb\<rparr>]"
    by (simp add: w1 split: option.splits)
next
  assume g: "show_req ps cb w = Inr w2"
  then obtain a m where "p_params (client w) = JRef a" "heap w a = Some (Obj m)"
    using show_Inr_params by blast
  from show_returns[OF this, of ps cb] g
  have w2: "w2 = w\<lparr>client := (client w)\<lparr>p_loading := True, p_debouncing := Some (Suc (last_handle w))\<rparr>,
            heap := (heap w)(a \<mapsto> Obj (m ++ ps)),
            last_handle := Suc (last_handle w),
            timers := timers (clearTimeout (p_debouncing (client w)) w) @
              [\<lparr>t_handle = Suc (last_handle w),
                t_due = now w + (if handle_truthy (p_debouncing (client w))
                                 then p_debounce (client w) else 0),
                t_task = FetchShow cb\<rparr>]\<rparr>" by simp
  show "p_debouncing (client w2) = Some (Suc (last_handle w))" by (simp add: w2)
  show "timers w2 = timers (clearTimeout (p_debouncing (client w)) w) @
        [\<lparr>t_handle = Suc (last_handle w),
          t_due = now w + (case p_debouncing (client w) of
                             None \<Rightarrow> 0
                           | Some h \<Rightarrow> if h = 0 then 0 else p_debounce (client w)),
          t_task = FetchShow cb\<rparr>]"
    by (simp add: w2 split: option.splits)
qed

text \<open>
  The theorem at two inputs: the first \<^verbatim>\<open>get\<close> of a client constructed without
  autoload (delay 0), and a \<^verbatim>\<open>show\<close> at time 5000 after that fetch has completed
  (due at 6000).
\<close>

theorem fetch_delay_witness:
  "get Map.empty None quiet_client = Inr fetching \<and>
   show_req Map.empty None first_fetch_done = Inr (world_of (show_req Map.empty None first_fetch_done)) \<and>
   p_debouncing (client quiet_client) = None \<and>
   timers fetching = [\<lparr>t_handle = 1, t_due = 0, t_task = FetchIndex None\<rparr>] \<and>
   p_debouncing (client first_fetch_done) = Some 1 \<and> now first_fetch_done = 5000 \<and>
   timers (world_of (show_req Map.empty None first_fetch_done)) =
     [\<lparr>t_handle = 2, t_due = 6000, t_task = FetchShow None\<rparr>]"
proof -
  have g: "get Map.empty None quiet_client = Inr fetching"
    by (simp add: fetching_def api_defs)
  have s: "show_req Map.empty None first_fetch_done =
             Inr (world_of (show_req Map.empty None first_fetch_done))"
    by (simp add: first_fetch_done_def api_defs)
  have q: "p_debouncing (client quiet_client) = None" "last_handle quiet_client = 0"
    "now quiet_client = 0" "timers quiet_client = []"
    by (simp_all add: api_defs)
  have d: "p_debouncing (client first_fetch_done) = Some 1" "now first_fetch_done = 5000"
    "last_handle first_fetch_done = 1" "timers first_fetch_done = []"
    "p_debounce (client first_fetch_done) = 1000"
    by (simp_all add: first_fetch_done_def api_defs)
  from fetch_delay[of Map.empty None quiet_client fetching _]
       fetch_delay[of Map.empty None first_fetch_done _
                      "world_of (show_req Map.empty None first_fetch_done)"]
       g s q d
  show ?thesis by (simp add: clearTimeout_def)
qed

text \<open>
  The claim as stated fails: once the first fetch has fired and its reply has arrived,
  no timer is pending and no call is in flight, yet an isolated \<^verbatim>\<open>get()\<close> at time
  5000 is scheduled for 6000, the full debounce duration later.
\<close>

theorem isolated_fetch_is_delayed:
  "returned (new_API ''users'' JUndefined JUndefined JUndefined False page) \<and>
   returned (run first_fetch quiet_client) \<and>
   timers first_fetch_done = [] \<and> pending first_fetch_done = [] \<and>
   \<not> loading first_fetch_done \<and> now first_fetch_done = 5000 \<and>
   returned (get Map.empty None first_fetch_done) \<and>
   map t_due (timers (world_of (get Map.empty None first_fetch_done))) = [6000]"
  by (simp add: first_fetch_done_def api_defs)

subsection \<open>The loading flag\<close>

text \<open>
  C2, as amended. In a single-call scenario (no timer pending, no call in flight), a
  \<^verbatim>\<open>get\<close> or \<^verbatim>\<open>show\<close> that returns leaves \<open>loading\<close> true, and it stays true while
  time passes. When the timer has fired and the call is fulfilled with a reply whose
  body \<^verbatim>\<open>r.data\<close> is not null or undefined, the handler ends normally unless the
  call's callback throws (the last thing it does), \<open>loading\<close> is false and stays false.
  When the call is rejected, no handler runs: the rejection goes unhandled and
  \<open>loading\<close> remains true.
\<close>

theorem loading_window:
  assumes "fetch = get \<or> fetch = show_req"
    and "timers w = []" and "pending w = []"
    and "fetch ps cb w = Inr w1"
    and "now w + (if handle_truthy (p_debouncing (client w)) then p_debounce (client w) else 0) \<le> t"
    and "get_path (heap w1) r [''data'', ''data''] = Inr d"
  shows "loading w1 \<and> (\<forall>t'. loading (elapse t' w1)) \<and>
         fst (respond (Suc (last_request w)) (Fulfilled r) (elapse t w1)) =
           map_option Raised (thrown cb r w) \<and>
         \<not> loading (snd (respond (Suc (last_request w)) (Fulfilled r) (elapse t w1))) \<and>
         (\<forall>t'. \<not> loading (elapse t' (snd (respond (Suc (last_request w)) (Fulfilled r) (elapse t w1))))) \<and>
         fst (respond (Suc (last_request w)) (Rejected e) (elapse t w1)) = Some (Rejection e) \<and>
         loading (snd (respond (Suc (last_request w)) (Rejected e) (elapse t w1)))"
proof -
  have l1: "loading w1"
    using assms(1,4) get_sets_loading show_sets_loading by blast
  have h: "get_path (heap ((elapse t w1)\<lparr>pending := []\<rparr>)) r [''data'', ''data''] = Inr d"
    using assms(6) by (simp add: elapse_frame del: get_path.simps)
  have "throws w1 = throws w"
    using assms(1,4) get_throws show_throws by blast
  then have th: "thrown cb r ((elapse t w1)\<lparr>pending := []\<rparr>) = thrown cb r w"
    by (intro thrown_throws) (simp add: elapse_frame)
  have ok: "fst (respond (Suc (last_request w)) (Fulfilled r) (elapse t w1)) =
           map_option Raised (thrown cb r w) \<and>
         \<not> loading (snd (respond (Suc (last_request w)) (Fulfilled r) (elapse t w1)))"
    using assms(1)
  proof
    assume f: "fetch = get"
    with assms have g: "get ps cb w = Inr w1" by simp
    show ?thesis
      using get_window(1)[OF assms(2,3) g assms(5,6)] index_then_loading[OF h, of cb] th
      by simp
  next
    assume f: "fetch = show_req"
    with assms have g: "show_req ps cb w = Inr w1" by simp
    show ?thesis
      using show_window(1)[OF assms(2,3) g assms(5)] show_then_loading[OF h, of cb] th
      by simp
  qed
  have ko: "respond (Suc (last_request w)) (Rejected e) (elapse t w1) =
           (Some (Rejection e), (elapse t w1)\<lparr>pending := []\<rparr>)"
    using assms(1)
  proof
    assume f: "fetch = get"
    with assms have g: "get ps cb w = Inr w1" by simp
    show ?thesis using get_window(2)[OF assms(2,3) g assms(5,6)] .
  next
    assume f: "fetch = show_req"
    with assms have g: "show_req ps cb w = Inr w1" by simp
    show ?thesis using show_window(2)[OF assms(2,3) g assms(5)] .
  qed
  have l3: "loading ((elapse t w1)\<lparr>pending := []\<rparr>)"
    using l1 by (simp add: loading_def elapse_frame)
  show ?thesis
    using l1 ok ko l3 by (simp add: elapse_loading)
qed

text \<open>
  The theorem at the first \<^verbatim>\<open>get()\<close>, and at a first \<^verbatim>\<open>show()\<close>, of the quiet
  client, fired at time 0.
\<close>

theorem loading_window_witness:
  "timers quiet_client = [] \<and> pending quiet_client = [] \<and>
   get Map.empty None quiet_client = Inr fetching \<and>
   show_req Map.empty None quiet_client = Inr (world_of (show_req Map.empty None quiet_client)) \<and>
   get_path (heap fetching) (JRef 6) [''data'', ''data''] = Inr (JRef 8) \<and>
   loading fetching \<and> loading (elapse 0 fetching) \<and>
   \<not> loading (snd (respond 1 (Fulfilled (JRef 6)) (elapse 0 fetching))) \<and>
   loading (snd (respond 1 (Rejected (JRef 3)) (elapse 0 fetching))) \<and>
   loading (world_of (show_req Map.empty None quiet_client)) \<and>
   \<not> loading (snd (respond 1 (Fulfilled (JRef 6))
                 (elapse 0 (world_of (show_req Map.empty None quiet_client))))) \<and>
   loading (snd (respond 1 (Rejected (JRef 3))
               (elapse 0 (world_of (show_req Map.empty None quiet_client)))))"
proof -
  have g: "get Map.empty None quiet_client = Inr fetching"
    by (simp add: fetching_def api_defs)
  have s: "show_req Map.empty None quiet_client =
             Inr (world_of (show_req Map.empty None quiet_client))"
    by (simp add: api_defs)
  have q: "timers quiet_client = []" "pending quiet_client = []" "last_request quiet_client = 0"
    "now quiet_client + (if handle_truthy (p_debouncing (client quiet_client))
        then p_debounce (client quiet_client) else 0) \<le> 0"
    by (simp_all add: api_defs)
  have r: "get_path (heap fetching) (JRef 6) [''data'', ''data''] = Inr (JRef 8)"
    by (simp add: fetching_def api_defs)
  have r': "get_path (heap (world_of (show_req Map.empty None quiet_client))) (JRef 6)
              [''data'', ''data''] = Inr (JRef 8)"
    by (simp add: api_defs)
  from loading_window[where fetch = get and e = "JRef 3", OF _ q(1,2) g q(4) r]
       loading_window[where fetch = show_req and e = "JRef 3", OF _ q(1,2) s q(4) r']
       q(3) g s r q(1,2)
  show ?thesis by simp
qed

text \<open>
  The claim as stated fails on a failure: the client was not loading, \<^verbatim>\<open>get()\<close>
  returned, the call was rejected, nothing is pending any more, and \<open>loading\<close> is
  still true.
\<close>

theorem loading_after_failure:
  "\<not> loading quiet_client \<and> returned (get Map.empty None quiet_client) \<and>
   respond 1 (Rejected (JRef 3)) (elapse 0 fetching) =
     (Some (Rejection (JRef 3)), snd (respond 1 (Rejected (JRef 3)) (elapse 0 fetching))) \<and>
   timers (snd (respond 1 (Rejected (JRef 3)) (elapse 0 fetching))) = [] \<and>
   pending (snd (respond 1 (Rejected (JRef 3)) (elapse 0 fetching))) = [] \<and>
   loading (snd (respond 1 (Rejected (JRef 3)) (elapse 0 fetching)))"
  by (simp add: fetching_def api_defs)

subsection \<open>A failed create\<close>

text \<open>
  C3, as amended. When \<^verbatim>\<open>post\<close> has returned and its call (the only one in flight)
  is rejected with \<open>e\<close>, the saving flag, set by the call, is still true afterwards and
  \<open>e\<close> is logged once on the console. If \<^verbatim>\<open>e.response.data.message\<close> can be read,
  exactly one \<^verbatim>\<open>ApiException\<close> carrying that message is thrown and \<open>e\<close> is emitted
  once as \<^verbatim>\<open>error-message\<close>. If it cannot (\<open>e\<close>, \<^verbatim>\<open>e.response\<close> or
  \<^verbatim>\<open>e.response.data\<close> is null or undefined), the constructor itself throws a
  \<^verbatim>\<open>TypeError\<close> and nothing is emitted.
\<close>

theorem post_failure:
  assumes "post ps body cb w = Inr w1" and "pending w = []"
  shows "saving w1 \<and>
         saving (snd (respond (Suc (last_request w)) (Rejected e) w1)) \<and>
         console (snd (respond (Suc (last_request w)) (Rejected e) w1)) = console w1 @ [e] \<and>
         (get_path (heap w1) e [''response'', ''data'', ''message''] = Inr msg \<longrightarrow>
            fst (respond (Suc (last_request w)) (Rejected e) w1) =
              Some (Thrown \<lparr>message = msg, name = ''APIException''\<rparr>) \<and>
            emitted (snd (respond (Suc (last_request w)) (Rejected e) w1)) =
              emitted w1 @ [(''error-message'', e)]) \<and>
         (get_path (heap w1) e [''response'', ''data'', ''message''] = Inl x \<longrightarrow>
            fst (respond (Suc (last_request w)) (Rejected e) w1) = Some TypeError \<and>
            emitted (snd (respond (Suc (last_request w)) (Rejected e) w1)) = emitted w1)"
proof -
  from assms(1) obtain a m where pm: "p_params (client w) = JRef a" "heap w a = Some (Obj m)"
    using post_Inr_params by blast
  have w1: "w1 = w\<lparr>client := (client w)\<lparr>p_saving := True\<rparr>,
            heap := (heap w)(a \<mapsto> Obj (m ++ ps)),
            last_request := Suc (last_request w),
            http := http w @ [\<lparr>r_verb = POST, r_name = p_route (client w) @ ''.store'',
                               r_params = m ++ ps, r_body = Some body\<rparr>],
            pending := pending w @ [(Suc (last_request w), StoreThen cb)]\<rparr>"
    using post_returns[OF pm, of ps body cb] assms(1) by simp
  have p: "pending w1 = [(Suc (last_request w), StoreThen cb)]"
    by (simp add: w1 assms(2))
  have s1: "saving w1" by (simp add: w1 saving_def)
  have r: "respond (Suc (last_request w)) (Rejected e) w1 = store_catch e (w1\<lparr>pending := []\<rparr>)"
    by (simp add: respond_single[OF p])
  show ?thesis
  proof (cases "get_path (heap w1) e [''response'', ''data'', ''message'']")
    case (Inl y)
    then have "y = TypeError" by (rule get_path_Inl)
    with Inl s1 show ?thesis
      by (simp add: r store_catch_def new_ApiException_def Let_def saving_def del: get_path.simps)
  next
    case (Inr v)
    with s1 show ?thesis
      by (simp add: r store_catch_def new_ApiException_def Let_def saving_def del: get_path.simps)
  qed
qed

text \<open>
  The theorem at \<^verbatim>\<open>post({}, {}, f8)\<close> on the quiet client, rejected once with
  \<^verbatim>\<open>{response: {data: {message: "Not found"}}}\<close> and once with \<^verbatim>\<open>{}\<close>.
\<close>

theorem post_failure_witness:
  "post Map.empty Map.empty (Some 8) (snd (onSuccess (Some 7) quiet_client)) = Inr posting \<and>
   pending (snd (onSuccess (Some 7) quiet_client)) = [] \<and>
   get_path (heap posting) (JRef 0) [''response'', ''data'', ''message''] = Inr (JStr ''Not found'') \<and>
   get_path (heap posting) (JRef 3) [''response'', ''data'', ''message''] = Inl TypeError \<and>
   saving posting \<and>
   saving (snd (respond 1 (Rejected (JRef 0)) posting)) \<and>
   fst (respond 1 (Rejected (JRef 0)) posting) =
     Some (Thrown \<lparr>message = JStr ''Not found'', name = ''APIException''\<rparr>) \<and>
   console (snd (respond 1 (Rejected (JRef 0)) posting)) = [JRef 0] \<and>
   emitted (snd (respond 1 (Rejected (JRef 0)) posting)) = [(''error-message'', JRef 0)] \<and>
   saving (snd (respond 1 (Rejected (JRef 3)) posting)) \<and>
   fst (respond 1 (Rejected (JRef 3)) posting) = Some TypeError \<and>
   console (snd (respond 1 (Rejected (JRef 3)) posting)) = [JRef 3] \<and>
   emitted (snd (respond 1 (Rejected (JRef 3)) posting)) = []"
proof -
  have p: "post Map.empty Map.empty (Some 8) (snd (onSuccess (Some 7) quiet_client)) = Inr posting"
    by (simp add: posting_def api_defs)
  have q: "pending (snd (onSuccess (Some 7) quiet_client)) = []"
    "last_request (snd (onSuccess (Some 7) quiet_client)) = 0"
    by (simp_all add: api_defs)
  have c: "console posting = []" "emitted posting = []"
    by (simp_all add: posting_def api_defs)
  have g0: "get_path (heap posting) (JRef 0) [''response'', ''data'', ''message''] =
              Inr (JStr ''Not found'')"
    by (simp add: posting_def api_defs)
  have g3: "get_path (heap posting) (JRef 3) [''response'', ''data'', ''message''] = Inl TypeError"
    by (simp add: posting_def api_defs)
  from post_failure[OF p q(1), of "JRef 0" "JStr ''Not found''" TypeError]
       post_failure[OF p q(1), of "JRef 3" "JStr ''Not found''" TypeError]
       p q c g0 g3
  show ?thesis by (simp del: get_path.simps)
qed

text \<open>
  The claim as stated fails for an error that carries no response (as when the network
  is down): the failure is logged, but a \<^verbatim>\<open>TypeError\<close> is thrown instead of the
  \<^verbatim>\<open>ApiException\<close>, and nothing reaches the event bus.
\<close>

theorem failed_post_without_response:
  "returned (post Map.empty Map.empty (Some 8) (snd (onSuccess (Some 7) quiet_client))) \<and>
   fst (respond 1 (Rejected (JRef 3)) posting) = Some TypeError \<and>
   console (snd (respond 1 (Rejected (JRef 3)) posting)) = [JRef 3] \<and>
   emitted (snd (respond 1 (Rejected (JRef 3)) posting)) = []"
  by (simp add: posting_def api_defs)

subsection \<open>A successful create\<close>

text \<open>
  C7, as amended. When the call of a \<^verbatim>\<open>post\<close> is fulfilled with \<open>r\<close>, the saving
  flag is cleared and then the callback registered with \<^verbatim>\<open>onSuccess\<close> (if any) is
  called with \<open>r\<close>. If it returns (or none is registered), the callback given to the
  \<^verbatim>\<open>post\<close> (if any) is called next, and if that returns too the handler ends normally
  and nothing is logged or emitted. Each callback finds the flag already cleared. If the
  registered callback throws \<open>v\<close>, the call's own callback is not called; a throw of
  either callback is caught by the catch handler of \<^verbatim>\<open>post\<close>, which runs on \<open>v\<close> as
  it does on a rejection.
\<close>

theorem post_success_callbacks:
  assumes "map_of (pending w) rid = Some (StoreThen cb)"
  shows "\<not> saving (snd (respond rid (Fulfilled r) w)) \<and>
         (thrown (p_callback (client w)) r w = None \<longrightarrow>
            invoked (snd (respond rid (Fulfilled r) w)) =
              invoked w @
              (case p_callback (client w) of
                 None \<Rightarrow> []
               | Some f \<Rightarrow> [(f, r, (client w)\<lparr>p_saving := False\<rparr>)]) @
              (case cb of
                 None \<Rightarrow> []
               | Some g \<Rightarrow> [(g, r, (client w)\<lparr>p_saving := False\<rparr>)]) \<and>
            (thrown cb r w = None \<longrightarrow>
               fst (respond rid (Fulfilled r) w) = None \<and>
               console (snd (respond rid (Fulfilled r) w)) = console w \<and>
               emitted (snd (respond rid (Fulfilled r) w)) = emitted w) \<and>
            (thrown cb r w = Some v \<longrightarrow>
               respond rid (Fulfilled r) w =
                 store_catch v
                   (w\<lparr>pending := filter (\<lambda>p. fst p \<noteq> rid) (pending w),
                      client := (client w)\<lparr>p_saving := False\<rparr>,
                      invoked := invoked w @
                        (case p_callback (client w) of
                           None \<Rightarrow> []
                         | Some f \<Rightarrow> [(f, r, (client w)\<lparr>p_saving := False\<rparr>)]) @
                        (case cb of
                           None \<Rightarrow> []
                         | Some g \<Rightarrow> [(g, r, (client w)\<lparr>p_saving := False\<rparr>)])\<rparr>))) \<and>
         (thrown (p_callback (client w)) r w = Some v \<longrightarrow>
            invoked (snd (respond rid (Fulfilled r) w)) =
              invoked w @
              (case p_callback (client w) of
                 None \<Rightarrow> []
               | Some f \<Rightarrow> [(f, r, (client w)\<lparr>p_saving := False\<rparr>)]) \<and>
            respond rid (Fulfilled r) w =
              store_catch v
                (w\<lparr>pending := filter (\<lambda>p. fst p \<noteq> rid) (pending w),
                   client := (client w)\<lparr>p_saving := False\<rparr>,
                   invoked := invoked w @
                     (case p_callback (client w) of
                        None \<Rightarrow> []
                      | Some f \<Rightarrow> [(f, r, (client w)\<lparr>p_saving := False\<rparr>)])\<rparr>))"
proof -
  let ?w0 = "w\<lparr>pending := filter (\<lambda>p. fst p \<noteq> rid) (pending w)\<rparr>"
  let ?w1 = "w\<lparr>pending := filter (\<lambda>p. fst p \<noteq> rid) (pending w),
                client := (client w)\<lparr>p_saving := False\<rparr>\<rparr>"
  let ?p = "p_callback (client w)"
  let ?w2 = "invoke ?p r ?w1"
  have r: "respond rid (Fulfilled r) w =
      (case store_then cb r ?w0 of (None, w') \<Rightarrow> (None, w') | (Some v, w') \<Rightarrow> store_catch v w')"
    using assms by (simp add: respond_def)
  have t1: "thrown f r ?w1 = thrown f r w" for f
    by (rule thrown_throws) simp
  have t2: "thrown f r ?w2 = thrown f r w" for f
    by (rule thrown_throws) (simp add: invoke_frame)
  have i2: "?w2 = w\<lparr>pending := filter (\<lambda>p. fst p \<noteq> rid) (pending w),
                     client := (client w)\<lparr>p_saving := False\<rparr>,
                     invoked := invoked w @
                       (case ?p of
                          None \<Rightarrow> []
                        | Some f \<Rightarrow> [(f, r, (client w)\<lparr>p_saving := False\<rparr>)])\<rparr>"
    by (cases ?p) (simp_all add: invoke_def)
  have i3: "invoke cb r ?w2 = w\<lparr>pending := filter (\<lambda>p. fst p \<noteq> rid) (pending w),
                     client := (client w)\<lparr>p_saving := False\<rparr>,
                     invoked := invoked w @
                       (case ?p of
                          None \<Rightarrow> []
                        | Some f \<Rightarrow> [(f, r, (client w)\<lparr>p_saving := False\<rparr>)]) @
                       (case cb of
                          None \<Rightarrow> []
                        | Some g \<Rightarrow> [(g, r, (client w)\<lparr>p_saving := False\<rparr>)])\<rparr>"
    unfolding i2 by (cases cb) (simp_all add: invoke_def)
  have st: "store_then cb r ?w0 =
      (case thrown ?p r w of
         Some u \<Rightarrow> (Some u, ?w2)
       | None \<Rightarrow> (thrown cb r w, invoke cb r ?w2))"
  proof -
    have w1: "?w0\<lparr>client := (client ?w0)\<lparr>p_saving := False\<rparr>\<rparr> = ?w1" by simp
    have pc: "p_callback (client ?w1) = ?p" by simp
    show ?thesis unfolding store_then_def Let_def w1 pc t1 t2 by simp
  qed
  show ?thesis
  proof (cases "thrown ?p r w")
    case (Some u)
    then have e: "respond rid (Fulfilled r) w = store_catch u ?w2"
      by (simp add: r st)
    have "\<not> saving (snd (store_catch u ?w2))"
      and "invoked (snd (store_catch u ?w2)) = invoked ?w2"
      using store_catch_frame(1,5)[of u ?w2 "fst (store_catch u ?w2)" "snd (store_catch u ?w2)"]
      by (simp_all add: saving_def invoke_frame)
    with Some e show ?thesis by (auto simp: i2)
  next
    case None
    show ?thesis
    proof (cases "thrown cb r w")
      case (Some u)
      with None have e: "respond rid (Fulfilled r) w = store_catch u (invoke cb r ?w2)"
        by (simp add: r st)
      have "\<not> saving (snd (store_catch u (invoke cb r ?w2)))"
        and "invoked (snd (store_catch u (invoke cb r ?w2))) = invoked (invoke cb r ?w2)"
        using store_catch_frame(1,5)[of u "invoke cb r ?w2"
            "fst (store_catch u (invoke cb r ?w2))" "snd (store_catch u (invoke cb r ?w2))"]
        by (simp_all add: saving_def invoke_frame)
      with None Some e show ?thesis by (auto simp: i3)
    next
      case n: None
      with None have e: "respond rid (Fulfilled r) w = (None, invoke cb r ?w2)"
        by (simp add: r st)
      with None n show ?thesis by (simp add: i3 saving_def)
    qed
  qed
qed

text \<open>
  The theorem at \<^verbatim>\<open>api.onSuccess(f7).post({}, {}, f8)\<close>, where \<open>f7\<close> is called, then
  \<open>f8\<close>; at \<^verbatim>\<open>api.onSuccess(f7).post({}, {}, f9)\<close>, where \<open>f9\<close> is called second and
  throws; and at \<^verbatim>\<open>api.onSuccess(f9).post({}, {}, f8)\<close>, where \<open>f9\<close> throws and \<open>f8\<close>
  is not called.
\<close>

theorem post_success_callbacks_witness:
  "map_of (pending posting) 1 = Some (StoreThen (Some 8)) \<and>
   p_callback (client posting) = Some 7 \<and> saving posting \<and> invoked posting = [] \<and>
   thrown (Some 7) (JRef 6) posting = None \<and> thrown (Some 8) (JRef 6) posting = None \<and>
   fst (respond 1 (Fulfilled (JRef 6)) posting) = None \<and>
   \<not> saving (snd (respond 1 (Fulfilled (JRef 6)) posting)) \<and>
   invoked (snd (respond 1 (Fulfilled (JRef 6)) posting)) =
     [(7, JRef 6, (client posting)\<lparr>p_saving := False\<rparr>),
      (8, JRef 6, (client posting)\<lparr>p_saving := False\<rparr>)] \<and>
   console (snd (respond 1 (Fulfilled (JRef 6)) posting)) = [] \<and>
   emitted (snd (respond 1 (Fulfilled (JRef 6)) posting)) = [] \<and>
   map_of (pending posting_second_throws) 1 = Some (StoreThen (Some 9)) \<and>
   thrown (Some 9) (JRef 6) posting_second_throws = Some (JRef 3) \<and>
   \<not> saving (snd (respond 1 (Fulfilled (JRef 6)) posting_second_throws)) \<and>
   invoked (snd (respond 1 (Fulfilled (JRef 6)) posting_second_throws)) =
     [(7, JRef 6, (client posting_second_throws)\<lparr>p_saving := False\<rparr>),
      (9, JRef 6, (client posting_second_throws)\<lparr>p_saving := False\<rparr>)] \<and>
   map_of (pending posting_first_throws) 1 = Some (StoreThen (Some 8)) \<and>
   p_callback (client posting_first_throws) = Some 9 \<and>
   \<not> saving (snd (respond 1 (Fulfilled (JRef 6)) posting_first_throws)) \<and>
   invoked (snd (respond 1 (Fulfilled (JRef 6)) posting_first_throws)) =
     [(9, JRef 6, (client posting_first_throws)\<lparr>p_saving := False\<rparr>)]"
proof -
  have p: "map_of (pending posting) 1 = Some (StoreThen (Some 8))"
    and c: "p_callback (client posting) = Some 7" "saving posting" "invoked posting = []"
      "console posting = []" "emitted posting = []"
    and t: "thrown (Some 7) (JRef 6) posting = None" "thrown (Some 8) (JRef 6) posting = None"
    by (simp_all add: posting_def api_defs)
  have p2: "map_of (pending posting_second_throws) 1 = Some (StoreThen (Some 9))"
    and c2: "p_callback (client posting_second_throws) = Some 7"
      "invoked posting_second_throws = []"
    and t2: "thrown (p_callback (client posting_second_throws)) (JRef 6) posting_second_throws
               = None"
      "thrown (Some 9) (JRef 6) posting_second_throws = Some (JRef 3)"
    by (simp_all add: posting_second_throws_def api_defs)
  have p1: "map_of (pending posting_first_throws) 1 = Some (StoreThen (Some 8))"
    and c1: "p_callback (client posting_first_throws) = Some 9"
      "invoked posting_first_throws = []"
    and t1: "thrown (p_callback (client posting_first_throws)) (JRef 6) posting_first_throws
               = Some (JRef 3)"
    by (simp_all add: posting_first_throws_def api_defs)
  note a = post_success_callbacks[OF p, of "JRef 6" "JRef 3"]
  note a2 = post_success_callbacks[OF p2, of "JRef 6" "JRef 3"]
  note a1 = post_success_callbacks[OF p1, of "JRef 6" "JRef 3"]
  have r: "fst (respond 1 (Fulfilled (JRef 6)) posting) = None \<and>
     \<not> saving (snd (respond 1 (Fulfilled (JRef 6)) posting)) \<and>
     invoked (snd (respond 1 (Fulfilled (JRef 6)) posting)) =
       [(7, JRef 6, (client posting)\<lparr>p_saving := False\<rparr>),
        (8, JRef 6, (client posting)\<lparr>p_saving := False\<rparr>)] \<and>
     console (snd (respond 1 (Fulfilled (JRef 6)) posting)) = [] \<and>
     emitted (snd (respond 1 (Fulfilled (JRef 6)) posting)) = []"
    using a c t by simp
  have s2: "\<not> saving (snd (respond 1 (Fulfilled (JRef 6)) posting_second_throws))"
    using a2 by (rule conjunct1)
  have i2: "invoked (snd (respond 1 (Fulfilled (JRef 6)) posting_second_throws)) =
     [(7, JRef 6, (client posting_second_throws)\<lparr>p_saving := False\<rparr>),
      (9, JRef 6, (client posting_second_throws)\<lparr>p_saving := False\<rparr>)]"
    using a2[THEN conjunct2, THEN conjunct1, rule_format, OF t2(1), THEN conjunct1] c2
    by simp
  have s1: "\<not> saving (snd (respond 1 (Fulfilled (JRef 6)) posting_first_throws))"
    using a1 by (rule conjunct1)
  have i1: "invoked (snd (respond 1 (Fulfilled (JRef 6)) posting_first_throws)) =
     [(9, JRef 6, (client posting_first_throws)\<lparr>p_saving := False\<rparr>)]"
    using a1[THEN conjunct2, THEN conjunct2, rule_format, OF t1, THEN conjunct1] c1
    by simp
  from p c(1-3) t r p2 t2(2) s2 i2 p1 c1(1) s1 i1 show ?thesis by simp
qed

text \<open>
  The claim as stated fails when the registered callback throws: the create was
  fulfilled and the saving flag is cleared, but of the two callbacks only \<open>f9\<close> has been
  called, not \<open>f8\<close>; the catch handler has logged what \<open>f9\<close> threw and, finding no
  response in it, has ended in a \<^verbatim>\<open>TypeError\<close>.
\<close>

theorem throwing_callback_skips_the_second:
  "returned (post Map.empty Map.empty (Some 8) (snd (onSuccess (Some 9) quiet_client))) \<and>
   p_callback (client posting_first_throws) = Some 9 \<and>
   map_of (pending posting_first_throws) 1 = Some (StoreThen (Some 8)) \<and>
   throws posting_first_throws 9 (JRef 6) = Some (JRef 3) \<and>
   fst (respond 1 (Fulfilled (JRef 6)) posting_first_throws) = Some TypeError \<and>
   \<not> saving (snd (respond 1 (Fulfilled (JRef 6)) posting_first_throws)) \<and>
   map fst (invoked (snd (respond 1 (Fulfilled (JRef 6)) posting_first_throws))) = [9] \<and>
   console (snd (respond 1 (Fulfilled (JRef 6)) posting_first_throws)) = [JRef 3] \<and>
   emitted (snd (respond 1 (Fulfilled (JRef 6)) posting_first_throws)) = []"
  by (simp add: posting_first_throws_def api_defs)

subsection \<open>Constructing the Request Error\<close>

text \<open>
  C8, as amended. If \<^verbatim>\<open>error.response.data\<close> can be read and is not null or
  undefined, the constructor logs the error, returns an exception whose message (and
  display string) is \<^verbatim>\<open>error.response.data.message\<close>, undefined when that property is
  absent, and emits the original error once; for
  \<^verbatim>\<open>{response: {data: {message: "Not found"}}}\<close> the display string is
  \<^verbatim>\<open>"Not found"\<close>. If \<open>error\<close>, \<^verbatim>\<open>error.response\<close> or \<^verbatim>\<open>error.response.data\<close> is
  null or undefined, the constructor logs the error and throws a \<^verbatim>\<open>TypeError\<close>
  before it emits anything.
\<close>

theorem ApiException_construct:
  "(get_path (heap w) e [''response'', ''data''] = Inr d \<and> d \<noteq> JNull \<and> d \<noteq> JUndefined \<longrightarrow>
      (\<exists>msg. get_prop (heap w) d ''message'' = Inr msg \<and>
         new_ApiException e w =
           Inr (\<lparr>message = msg, name = ''APIException''\<rparr>,
                w\<lparr>console := console w @ [e],
                  emitted := emitted w @ [(''error-message'', e)]\<rparr>) \<and>
         toString \<lparr>message = msg, name = ''APIException''\<rparr> = msg)) \<and>
   (get_path (heap w) e [''response'', ''data''] \<in> {Inl TypeError, Inr JNull, Inr JUndefined} \<longrightarrow>
      new_ApiException e w = Inl (TypeError, w\<lparr>console := console w @ [e]\<rparr>))"
proof (intro conjI impI)
  assume a: "get_path (heap w) e [''response'', ''data''] = Inr d \<and> d \<noteq> JNull \<and> d \<noteq> JUndefined"
  then obtain resp where r: "get_prop (heap w) e ''response'' = Inr resp"
      "get_prop (heap w) resp ''data'' = Inr d"
    by (auto split: sum.splits)
  from a have "get_prop (heap w) d ''message'' \<noteq> Inl TypeError"
    by (simp add: get_prop_Inl_iff)
  then obtain msg where m: "get_prop (heap w) d ''message'' = Inr msg"
    by (cases "get_prop (heap w) d ''message''") (auto dest: get_prop_Inl)
  have "new_ApiException e w =
           Inr (\<lparr>message = msg, name = ''APIException''\<rparr>,
                w\<lparr>console := console w @ [e],
                  emitted := emitted w @ [(''error-message'', e)]\<rparr>)"
    using r m by (simp add: new_ApiException_def Let_def)
  with m show "\<exists>msg. get_prop (heap w) d ''message'' = Inr msg \<and>
         new_ApiException e w =
           Inr (\<lparr>message = msg, name = ''APIException''\<rparr>,
                w\<lparr>console := console w @ [e],
                  emitted := emitted w @ [(''error-message'', e)]\<rparr>) \<and>
         toString \<lparr>message = msg, name = ''APIException''\<rparr> = msg"
    by (simp add: toString_def)
next
  assume a: "get_path (heap w) e [''response'', ''data''] \<in> {Inl TypeError, Inr JNull, Inr JUndefined}"
  have "get_path (heap w) e [''response'', ''data'', ''message''] = Inl TypeError"
  proof (cases "get_prop (heap w) e ''response''")
    case (Inl x)
    then show ?thesis by (auto dest: get_prop_Inl)
  next
    case resp: (Inr resp)
    show ?thesis
    proof (cases "get_prop (heap w) resp ''data''")
      case (Inl x)
      with resp show ?thesis by (auto dest: get_prop_Inl)
    next
      case (Inr d)
      with resp a have "d = JNull \<or> d = JUndefined" by auto
      with resp Inr show ?thesis by auto
    qed
  qed
  then show "new_ApiException e w = Inl (TypeError, w\<lparr>console := console w @ [e]\<rparr>)"
    by (simp add: new_ApiException_def Let_def del: get_path.simps)
qed

text \<open>
  The theorem at \<^verbatim>\<open>{response: {data: {message: "Not found"}}}\<close> (address 0) and at
  \<^verbatim>\<open>{}\<close> (address 3).
\<close>

theorem ApiException_construct_witness:
  "get_path (heap page) (JRef 0) [''response'', ''data''] = Inr (JRef 2) \<and>
   get_prop (heap page) (JRef 2) ''message'' = Inr (JStr ''Not found'') \<and>
   new_ApiException (JRef 0) page =
     Inr (\<lparr>message = JStr ''Not found'', name = ''APIException''\<rparr>,
          page\<lparr>console := [JRef 0], emitted := [(''error-message'', JRef 0)]\<rparr>) \<and>
   toString \<lparr>message = JStr ''Not found'', name = ''APIException''\<rparr> = JStr ''Not found'' \<and>
   get_path (heap page) (JRef 3) [''response'', ''data''] = Inl TypeError \<and>
   new_ApiException (JRef 3) page = Inl (TypeError, page\<lparr>console := [JRef 3]\<rparr>)"
proof -
  have g0: "get_path (heap page) (JRef 0) [''response'', ''data''] = Inr (JRef 2)"
    and m0: "get_prop (heap page) (JRef 2) ''message'' = Inr (JStr ''Not found'')"
    and g3: "get_path (heap page) (JRef 3) [''response'', ''data''] = Inl TypeError"
    and c: "console page = []" "emitted page = []"
    by (simp_all add: page_def page_heap_def)
  from ApiException_construct[of page "JRef 0" "JRef 2"]
       ApiException_construct[of page "JRef 3" "JRef 2"] g0 m0 g3 c
  show ?thesis by (simp del: get_path.simps)
qed

text \<open>
  The claim as stated fails where only the innermost part of the shape is absent: for
  \<^verbatim>\<open>{response: {data: {}}}\<close> (address 4) the construction does not crash; the
  message is undefined and the event is emitted.
\<close>

theorem ApiException_without_message:
  "get_path (heap page) (JRef 4) [''response'', ''data''] = Inr (JRef 3) \<and>
   heap page 3 = Some (Obj Map.empty) \<and>
   new_ApiException (JRef 4) page =
     Inr (\<lparr>message = JUndefined, name = ''APIException''\<rparr>,
          page\<lparr>console := [JRef 4], emitted := [(''error-message'', JRef 4)]\<rparr>)"
  by (simp add: page_def page_heap_def new_ApiException_def)

subsection \<open>The setters\<close>

text \<open>
  C9, as amended. \<^verbatim>\<open>params(v)\<close> stores every value \<open>v\<close> and returns \<^verbatim>\<open>this\<close>.
  \<^verbatim>\<open>data(v)\<close> and \<^verbatim>\<open>meta(v)\<close> store \<open>v\<close> and return \<^verbatim>\<open>this\<close> when \<open>v\<close> is truthy;
  for a falsy \<open>v\<close> (null, undefined, false, 0, the empty string) they are the getters:
  nothing is stored and the stored value is returned.
\<close>

theorem setters:
  "params v w = (This, w\<lparr>client := (client w)\<lparr>p_params := v\<rparr>\<rparr>) \<and>
   (truthy v \<longrightarrow>
      data v w = (This, w\<lparr>client := (client w)\<lparr>p_data := v\<rparr>\<rparr>) \<and>
      meta v w = (This, w\<lparr>client := (client w)\<lparr>p_meta := v\<rparr>\<rparr>)) \<and>
   (\<not> truthy v \<longrightarrow>
      data v w = (Value (p_data (client w)), w) \<and>
      meta v w = (Value (p_meta (client w)), w))"
  by (simp add: params_def data_def meta_def)

text \<open>The theorem at an object reference and at null.\<close>

theorem setters_witness:
  "truthy (JRef 3) \<and> \<not> truthy JNull \<and>
   params (JRef 3) quiet_client = (This, quiet_client\<lparr>client := (client quiet_client)\<lparr>p_params := JRef 3\<rparr>\<rparr>) \<and>
   params JNull quiet_client = (This, quiet_client\<lparr>client := (client quiet_client)\<lparr>p_params := JNull\<rparr>\<rparr>) \<and>
   data (JRef 3) quiet_client = (This, quiet_client\<lparr>client := (client quiet_client)\<lparr>p_data := JRef 3\<rparr>\<rparr>) \<and>
   meta (JRef 3) quiet_client = (This, quiet_client\<lparr>client := (client quiet_client)\<lparr>p_meta := JRef 3\<rparr>\<rparr>) \<and>
   data JNull quiet_client = (Value (p_data (client quiet_client)), quiet_client) \<and>
   meta JNull quiet_client = (Value (p_meta (client quiet_client)), quiet_client)"
  using setters[of "JRef 3" quiet_client] setters[of JNull quiet_client]
  by simp

text \<open>
  The claim as stated fails for falsy arguments: \<^verbatim>\<open>data(0)\<close>, \<^verbatim>\<open>data('')\<close>,
  \<^verbatim>\<open>data(false)\<close> and \<^verbatim>\<open>meta(null)\<close> change nothing and return the stored value
  instead of the instance.
\<close>

theorem falsy_argument_not_stored:
  "p_data (client quiet_client) = JRef 14 \<and> p_meta (client quiet_client) = JRef 13 \<and>
   data (JNum 0) quiet_client = (Value (JRef 14), quiet_client) \<and>
   data (JStr []) quiet_client = (Value (JRef 14), quiet_client) \<and>
   data (JBool False) quiet_client = (Value (JRef 14), quiet_client) \<and>
   meta JNull quiet_client = (Value (JRef 13), quiet_client)"
  by (simp add: api_defs)

subsection \<open>The local data after a delete\<close>

text \<open>
  C4, as amended. Let the call of \<^verbatim>\<open>delete(x, ...)\<close> be fulfilled while the local data
  is an array. If none of its elements is null or undefined, the local data becomes a
  new array holding exactly the elements whose \<^verbatim>\<open>id\<close> is not \<open>x\<close>, in their original
  order, so that no record of it has \<^verbatim>\<open>id\<close> equal to \<open>x\<close>; the handler ends normally
  unless the callback, called last, throws. If an element is null or undefined, reading
  its \<^verbatim>\<open>id\<close> throws a \<^verbatim>\<open>TypeError\<close> before anything is stored: the local data stays
  as it is and the callback is not called. (The new array takes the next address of the
  store, which is free.)
\<close>

theorem delete_removes_id:
  assumes "map_of (pending w) rid = Some (DestroyThen x cb)"
    and "p_data (client w) = JRef a" and "heap w a = Some (Arr ds)"
    and "heap w (next_addr w) = None"
    and "respond rid (Fulfilled r) w = (res, w')"
  shows "((\<forall>d \<in> set ds. d \<noteq> JNull \<and> d \<noteq> JUndefined) \<longrightarrow>
            res = map_option Raised (thrown cb r w) \<and>
            p_data (client w') = JRef (next_addr w) \<and>
            heap w' (next_addr w) =
              Some (Arr (filter (\<lambda>d. get_prop (heap w) d ''id'' \<noteq> Inr x) ds)) \<and>
            (\<forall>d \<in> set (filter (\<lambda>d. get_prop (heap w) d ''id'' \<noteq> Inr x) ds).
               get_prop (heap w') d ''id'' \<noteq> Inr x)) \<and>
         ((\<exists>d \<in> set ds. d = JNull \<or> d = JUndefined) \<longrightarrow>
            res = Some TypeError \<and> p_data (client w') = JRef a \<and> heap w' = heap w \<and>
            invoked w' = invoked w)"
proof -
  let ?ys = "filter (\<lambda>d. get_prop (heap w) d ''id'' \<noteq> Inr x) ds"
  let ?w0 = "w\<lparr>pending := filter (\<lambda>p. fst p \<noteq> rid) (pending w)\<rparr>"
  let ?w2 = "?w0\<lparr>heap := (heap w)(next_addr w \<mapsto> Arr ?ys), next_addr := Suc (next_addr w),
           client := (client w)\<lparr>p_data := JRef (next_addr w)\<rparr>\<rparr>"
  have first: "res = map_option Raised (thrown cb r w) \<and>
            p_data (client w') = JRef (next_addr w) \<and>
            heap w' (next_addr w) = Some (Arr ?ys) \<and>
            (\<forall>d \<in> set ?ys. get_prop (heap w') d ''id'' \<noteq> Inr x)"
    if nn: "\<forall>d \<in> set ds. d \<noteq> JNull \<and> d \<noteq> JUndefined"
  proof -
  have f: "filter_js (id_differs (heap ?w0) x) ds = Inr ?ys"
    using filter_js_filter[OF nn, of "heap w" x] by simp
  have t: "thrown cb r ?w2 = thrown cb r w"
    by (rule thrown_throws) simp
  have "respond rid (Fulfilled r) w = destroy_then x cb r ?w0"
    using assms(1) by (simp add: respond_def)
  also have "\<dots> = (map_option Raised (thrown cb r ?w2), invoke cb r ?w2)"
    using assms(2,3) f by (simp add: destroy_then_def data_def alloc_def Let_def)
  finally have r: "res = map_option Raised (thrown cb r w)"
    and w': "w' = invoke cb r ?w2"
    using assms(5) t by simp_all
  have h: "heap w' = (heap w)(next_addr w \<mapsto> Arr ?ys)"
    by (simp add: w' invoke_frame)
  have c: "p_data (client w') = JRef (next_addr w)"
    by (simp add: w' invoke_frame)
  have "\<forall>d \<in> set ?ys. get_prop (heap w') d ''id'' \<noteq> Inr x"
    by (simp add: h get_prop_fresh[of "heap w" "next_addr w", OF assms(4)])
  with r h c show ?thesis by simp
  qed
  have second: "res = Some TypeError \<and> p_data (client w') = JRef a \<and> heap w' = heap w \<and>
            invoked w' = invoked w"
    if n: "\<exists>d \<in> set ds. d = JNull \<or> d = JUndefined"
  proof -
  have f: "filter_js (id_differs (heap ?w0) x) ds = Inl TypeError"
    using filter_js_null[OF n, of "heap w" x] by simp
  have "respond rid (Fulfilled r) w = destroy_then x cb r ?w0"
    using assms(1) by (simp add: respond_def)
  also have "\<dots> = (Some TypeError, ?w0)"
    using assms(2,3) f by (simp add: destroy_then_def data_def Let_def)
  finally show ?thesis
    using assms(2,5) by auto
  qed
  from first second show ?thesis by blast
qed

text \<open>
  The theorem at the three loaded records with ids 1, 2, 3 and \<^verbatim>\<open>delete(2)\<close>, where
  the first and the third remain, in that order; and at the loaded array
  \<^verbatim>\<open>[{id: 1}, null, {id: 2}]\<close> and \<^verbatim>\<open>delete(2)\<close>, where the handler throws.
\<close>

theorem delete_removes_id_witness:
  "map_of (pending deleting) 2 = Some (DestroyThen (JNum 2) None) \<and>
   p_data (client deleting) = JRef 8 \<and>
   heap deleting 8 = Some (Arr [JRef 9, JRef 10, JRef 11]) \<and>
   next_addr deleting = 15 \<and> heap deleting 15 = None \<and>
   get_prop (heap deleting) (JRef 10) ''id'' = Inr (JNum 2) \<and>
   fst (respond 2 (Fulfilled (JRef 6)) deleting) = None \<and>
   p_data (client (snd (respond 2 (Fulfilled (JRef 6)) deleting))) = JRef 15 \<and>
   heap (snd (respond 2 (Fulfilled (JRef 6)) deleting)) 15 = Some (Arr [JRef 9, JRef 11]) \<and>
   map_of (pending deleting_with_null) 2 = Some (DestroyThen (JNum 2) None) \<and>
   p_data (client deleting_with_null) = JRef 14 \<and>
   heap deleting_with_null 14 = Some (Arr [JRef 9, JNull, JRef 10]) \<and>
   next_addr deleting_with_null = 18 \<and> heap deleting_with_null 18 = None \<and>
   fst (respond 2 (Fulfilled (JRef 6)) deleting_with_null) = Some TypeError \<and>
   p_data (client (snd (respond 2 (Fulfilled (JRef 6)) deleting_with_null))) = JRef 14 \<and>
   heap (snd (respond 2 (Fulfilled (JRef 6)) deleting_with_null)) = heap deleting_with_null"
proof -
  have p: "map_of (pending deleting) 2 = Some (DestroyThen (JNum 2) None)"
    and d: "p_data (client deleting) = JRef 8"
    and a: "heap deleting 8 = Some (Arr [JRef 9, JRef 10, JRef 11])"
    and n: "next_addr deleting = 15"
    and f: "heap deleting 15 = None"
    and i: "get_prop (heap deleting) (JRef 9) ''id'' = Inr (JNum 1)"
           "get_prop (heap deleting) (JRef 10) ''id'' = Inr (JNum 2)"
           "get_prop (heap deleting) (JRef 11) ''id'' = Inr (JNum 3)"
    and t: "thrown None (JRef 6) deleting = None"
    by (simp_all add: deleting_def api_defs)
  have s: "\<forall>d \<in> set [JRef 9, JRef 10, JRef 11]. d \<noteq> JNull \<and> d \<noteq> JUndefined"
    by simp
  have f': "heap deleting (next_addr deleting) = None"
    using f n by simp
  have r: "respond 2 (Fulfilled (JRef 6)) deleting =
      (fst (respond 2 (Fulfilled (JRef 6)) deleting), snd (respond 2 (Fulfilled (JRef 6)) deleting))"
    by simp
  have one: "fst (respond 2 (Fulfilled (JRef 6)) deleting) = None \<and>
     p_data (client (snd (respond 2 (Fulfilled (JRef 6)) deleting))) = JRef 15 \<and>
     heap (snd (respond 2 (Fulfilled (JRef 6)) deleting)) 15 = Some (Arr [JRef 9, JRef 11])"
    using delete_removes_id[OF p d a f' r, THEN conjunct1, THEN mp, OF s] n i t
    by simp
  have p': "map_of (pending deleting_with_null) 2 = Some (DestroyThen (JNum 2) None)"
    and d': "p_data (client deleting_with_null) = JRef 14"
    and a': "heap deleting_with_null 14 = Some (Arr [JRef 9, JNull, JRef 10])"
    and n': "next_addr deleting_with_null = 18"
    and g': "heap deleting_with_null 18 = None"
    by (simp_all add: deleting_with_null_def api_defs)
  have s': "\<exists>d \<in> set [JRef 9, JNull, JRef 10]. d = JNull \<or> d = JUndefined"
    by simp
  have f'': "heap deleting_with_null (next_addr deleting_with_null) = None"
    using g' n' by simp
  have r': "respond 2 (Fulfilled (JRef 6)) deleting_with_null =
      (fst (respond 2 (Fulfilled (JRef 6)) deleting_with_null),
       snd (respond 2 (Fulfilled (JRef 6)) deleting_with_null))"
    by simp
  have two: "fst (respond 2 (Fulfilled (JRef 6)) deleting_with_null) = Some TypeError \<and>
     p_data (client (snd (respond 2 (Fulfilled (JRef 6)) deleting_with_null))) = JRef 14 \<and>
     heap (snd (respond 2 (Fulfilled (JRef 6)) deleting_with_null)) = heap deleting_with_null"
    using delete_removes_id[OF p' d' a' f'' r', THEN conjunct2, THEN mp, OF s']
    by simp
  from p d a n f i(2) one p' d' a' n' g' two show ?thesis by simp
qed

text \<open>
  The claim as stated fails for a data sequence with a null in it: the client has
  loaded \<^verbatim>\<open>[{id: 1}, null, {id: 2}]\<close>, \<^verbatim>\<open>delete(2)\<close> is fulfilled, the handler ends in
  a \<^verbatim>\<open>TypeError\<close>, and the local data is the same array, the record with id 2 still in
  it.
\<close>

theorem delete_with_null_element:
  "returned (new_API ''users'' JUndefined JUndefined JUndefined False page_with_null) \<and>
   returned (run load_null_and_delete
     (world_of (new_API ''users'' JUndefined JUndefined JUndefined False page_with_null))) \<and>
   map_of (pending deleting_with_null) 2 = Some (DestroyThen (JNum 2) None) \<and>
   p_data (client deleting_with_null) = JRef 14 \<and>
   heap deleting_with_null 14 = Some (Arr [JRef 9, JNull, JRef 10]) \<and>
   get_prop (heap deleting_with_null) (JRef 10) ''id'' = Inr (JNum 2) \<and>
   fst (respond 2 (Fulfilled (JRef 6)) deleting_with_null) = Some TypeError \<and>
   p_data (client (snd (respond 2 (Fulfilled (JRef 6)) deleting_with_null))) = JRef 14 \<and>
   heap (snd (respond 2 (Fulfilled (JRef 6)) deleting_with_null)) 14 =
     Some (Arr [JRef 9, JNull, JRef 10]) \<and>
   get_prop (heap (snd (respond 2 (Fulfilled (JRef 6)) deleting_with_null))) (JRef 10) ''id'' =
     Inr (JNum 2)"
  by (simp add: deleting_with_null_def api_defs)

subsection \<open>The stored parameters\<close>

text \<open>
  C5. When the stored parameters are an object with properties \<open>m\<close>, every sequence of
  \<^verbatim>\<open>get\<close>, \<^verbatim>\<open>show\<close>, \<^verbatim>\<open>post\<close> and \<^verbatim>\<open>update\<close> calls returns, leaves the same
  object stored, and leaves in it the union of \<open>m\<close> with the merged arguments in call
  order, a later key overwriting an earlier one.
\<close>

theorem params_after_calls:
  assumes "p_params (client w) = JRef a" and "heap w a = Some (Obj m)"
    and "\<forall>e \<in> set es. merged e \<noteq> None"
  shows "\<exists>w'. run es w = Inr w' \<and> p_params (client w') = JRef a \<and>
              heap w' a = Some (Obj (foldl (++) m (List.map_filter merged es)))"
  using assms
proof (induction es arbitrary: w m)
  case Nil
  then show ?case by simp
next
  case (Cons e es)
  from Cons.prems(3) obtain ps where ps: "merged e = Some ps" by auto
  from merging_step[OF Cons.prems(1,2) ps] obtain w1 where
    w1: "step e w = Inr w1" "p_params (client w1) = JRef a" "heap w1 a = Some (Obj (m ++ ps))"
    by blast
  from Cons.prems(3) have "\<forall>e \<in> set es. merged e \<noteq> None" by simp
  from Cons.IH[OF w1(2,3) this] w1(1) ps show ?case
    by simp
qed

text \<open>
  The theorem at \<^verbatim>\<open>get({page: 1})\<close>, \<^verbatim>\<open>post({q: 'x'})\<close>, \<^verbatim>\<open>show({page: 2})\<close> on the
  quiet client, whose parameters start empty.
\<close>

theorem params_after_calls_witness:
  "p_params (client quiet_client) = JRef 12 \<and> heap quiet_client 12 = Some (Obj Map.empty) \<and>
   List.map_filter merged three_calls =
     [[''page'' \<mapsto> JNum 1], [''q'' \<mapsto> JStr ''x''], [''page'' \<mapsto> JNum 2]] \<and>
   returned (run three_calls quiet_client) \<and>
   p_params (client (world_of (run three_calls quiet_client))) = JRef 12 \<and>
   heap (world_of (run three_calls quiet_client)) 12 =
     Some (Obj [''page'' \<mapsto> JNum 2, ''q'' \<mapsto> JStr ''x''])"
proof -
  have p: "p_params (client quiet_client) = JRef 12"
    and h: "heap quiet_client 12 = Some (Obj Map.empty)"
    by (simp_all add: api_defs)
  have m: "\<forall>e \<in> set three_calls. merged e \<noteq> None"
    by (simp add: three_calls_def)
  have l: "List.map_filter merged three_calls =
     [[''page'' \<mapsto> JNum 1], [''q'' \<mapsto> JStr ''x''], [''page'' \<mapsto> JNum 2]]"
    by (simp add: three_calls_def)
  have u: "foldl (++) Map.empty
      [[''page'' \<mapsto> JNum 1], [''q'' \<mapsto> JStr ''x''], [''page'' \<mapsto> JNum (2::int)]] =
      [''page'' \<mapsto> JNum 2, ''q'' \<mapsto> JStr ''x'']"
    by (auto simp: fun_eq_iff map_add_def)
  from params_after_calls[OF p h m] obtain w' where
    w': "run three_calls quiet_client = Inr w'" "p_params (client w') = JRef 12"
        "heap w' 12 = Some (Obj (foldl (++) Map.empty (List.map_filter merged three_calls)))"
    by blast
  with p h l u show ?thesis by (simp add: world_of_def returned_def)
qed

subsection \<open>The id that \<^verbatim>\<open>delete\<close> leaves in the parameters\<close>

text \<open>
  C10, as amended. When the stored parameters are an object with properties \<open>m\<close>
  (allocated in the store), \<^verbatim>\<open>delete(x, callback, ps)\<close> returns, sends its request
  with \<open>m\<close>, \<open>ps\<close> and \<^verbatim>\<open>{id: x}\<close> merged, and leaves the same object stored with
  that union in it. Whatever follows on the client other than a wholesale replacement
  of the parameters (\<^verbatim>\<open>params(p)\<close>) - calls, time passing, replies arriving - every
  call returns and every further request carries an \<^verbatim>\<open>id\<close> parameter.
\<close>

theorem delete_id_stays:
  assumes "p_params (client w) = JRef a" and "heap w a = Some (Obj m)" and "a < next_addr w"
  shows "\<exists>w1. delete x cb ps w = Inr w1 \<and>
           p_params (client w1) = JRef a \<and>
           heap w1 a = Some (Obj (m ++ ps ++ [''id'' \<mapsto> x])) \<and>
           http w1 = http w @ [\<lparr>r_verb = DELETE, r_name = p_route (client w) @ ''.destroy'',
                                 r_params = m ++ ps ++ [''id'' \<mapsto> x], r_body = None\<rparr>] \<and>
           (\<forall>es. (\<forall>e \<in> set es. \<not> replaces_params e) \<longrightarrow>
              (\<exists>w2 new. run es w1 = Inr w2 \<and> http w2 = http w1 @ new \<and>
                 (\<forall>q \<in> set new. ''id'' \<in> dom (r_params q))))"
proof -
  let ?w1 = "w\<lparr>heap := (heap w)(a \<mapsto> Obj (m ++ ps ++ [''id'' \<mapsto> x])),
            last_request := Suc (last_request w),
            http := http w @ [\<lparr>r_verb = DELETE, r_name = p_route (client w) @ ''.destroy'',
                               r_params = m ++ ps ++ [''id'' \<mapsto> x], r_body = None\<rparr>],
            pending := pending w @ [(Suc (last_request w), DestroyThen x cb)],
            client := client w\<rparr>"
  have d: "delete x cb ps w = Inr ?w1" by (rule delete_returns[OF assms(1,2)])
  have p: "p_params (client ?w1) = JRef a" using assms(1) by simp
  have h: "heap ?w1 a = Some (Obj (m ++ ps ++ [''id'' \<mapsto> x]))" by simp
  have i: "''id'' \<in> dom (m ++ ps ++ [''id'' \<mapsto> x])" by simp
  have n: "a < next_addr ?w1" using assms(3) by simp
  have "\<forall>es. (\<forall>e \<in> set es. \<not> replaces_params e) \<longrightarrow>
              (\<exists>w2 new. run es ?w1 = Inr w2 \<and> http w2 = http ?w1 @ new \<and>
                 (\<forall>q \<in> set new. ''id'' \<in> dom (r_params q)))"
    using id_key_persists[OF p h i n] by blast
  with d p h show ?thesis by simp
qed

text \<open>
  The theorem at \<^verbatim>\<open>delete(5)\<close> on the quiet client, followed by a fetch (fired and
  answered), the reply to the delete, and a create: all three requests carry
  \<^verbatim>\<open>id = 5\<close>.
\<close>

theorem delete_id_stays_witness:
  "p_params (client quiet_client) = JRef 12 \<and> heap quiet_client 12 = Some (Obj Map.empty) \<and>
   12 < next_addr quiet_client \<and>
   returned (delete (JNum 5) None Map.empty quiet_client) \<and>
   returned (run after_delete (world_of (delete (JNum 5) None Map.empty quiet_client))) \<and>
   map r_verb (http (world_of (run after_delete
     (world_of (delete (JNum 5) None Map.empty quiet_client))))) = [DELETE, GET, POST] \<and>
   map (\<lambda>q. r_params q ''id'') (http (world_of (run after_delete
     (world_of (delete (JNum 5) None Map.empty quiet_client))))) =
     [Some (JNum 5), Some (JNum 5), Some (JNum 5)]"
proof -
  have p: "p_params (client quiet_client) = JRef 12"
    and h: "heap quiet_client 12 = Some (Obj Map.empty)"
    and n: "12 < next_addr quiet_client"
    by (simp_all add: api_defs)
  have k: "\<forall>e \<in> set after_delete. \<not> replaces_params e"
    by (simp add: after_delete_def)
  from delete_id_stays[OF p h n, of "JNum 5" None Map.empty] k obtain w1 w2 where
    w: "delete (JNum 5) None Map.empty quiet_client = Inr w1" "run after_delete w1 = Inr w2"
    by blast
  have v: "map r_verb (http (world_of (run after_delete
     (world_of (delete (JNum 5) None Map.empty quiet_client))))) = [DELETE, GET, POST]"
    by (simp add: after_delete_def api_defs)
  have i: "map (\<lambda>q. r_params q ''id'') (http (world_of (run after_delete
     (world_of (delete (JNum 5) None Map.empty quiet_client))))) =
     [Some (JNum 5), Some (JNum 5), Some (JNum 5)]"
    by (simp add: after_delete_def api_defs)
  from w p h n v i show ?thesis by (simp add: world_of_def returned_def)
qed

text \<open>
  The claim as stated fails when the parameters are replaced in between: after
  \<^verbatim>\<open>delete(5)\<close> and \<^verbatim>\<open>params({})\<close>, the request of the next \<^verbatim>\<open>get()\<close> has no
  \<^verbatim>\<open>id\<close>.
\<close>

theorem params_replaced_after_delete:
  "returned (delete (JNum 5) None Map.empty quiet_client) \<and>
   returned (run after_delete_replaced (world_of (delete (JNum 5) None Map.empty quiet_client))) \<and>
   map r_verb (http (world_of (run after_delete_replaced
     (world_of (delete (JNum 5) None Map.empty quiet_client))))) = [DELETE, GET] \<and>
   map (\<lambda>q. r_params q ''id'') (http (world_of (run after_delete_replaced
     (world_of (delete (JNum 5) None Map.empty quiet_client))))) = [Some (JNum 5), None]"
  by (simp add: after_delete_replaced_def api_defs)

subsection \<open>Two fetches in a row\<close>

text \<open>
  C6, as amended. Let a \<^verbatim>\<open>get\<close> be called with no timer pending, and a second
  \<^verbatim>\<open>get\<close> while the timer of the first is still pending: at once, or at a time before
  that timer is due. Then the second call cancels the first timer, its own timer is due
  one debounce duration after the second call, no request is sent before that, and when
  it fires exactly one request is sent, a GET of the index route with the parameters as
  merged by both calls; no timer remains.
\<close>

theorem coalesce:
  assumes "p_params (client w) = JRef a" and "heap w a = Some (Obj m)"
    and "timers w = []"
    and "get p1 c1 w = Inr w1"
    and "wm = w1 \<or>
         (wm = elapse t1 w1 \<and>
          t1 < now w + (if handle_truthy (p_debouncing (client w)) then p_debounce (client w) else 0))"
    and "get p2 c2 wm = Inr w2"
  shows "timers w2 = [\<lparr>t_handle = Suc (Suc (last_handle w)),
                       t_due = now wm + p_debounce (client w), t_task = FetchIndex c2\<rparr>] \<and>
         (\<forall>t. t < now wm + p_debounce (client w) \<longrightarrow> http (elapse t w2) = http w) \<and>
         (\<forall>t. now wm + p_debounce (client w) \<le> t \<longrightarrow>
            timers (elapse t w2) = [] \<and>
            http (elapse t w2) =
              http w @ [\<lparr>r_verb = GET, r_name = p_route (client w) @ ''.index'',
                         r_params = m ++ p1 ++ p2, r_body = None\<rparr>])"
proof -
  let ?d1 = "now w + (if handle_truthy (p_debouncing (client w)) then p_debounce (client w) else 0)"
  let ?tm1 = "\<lparr>t_handle = Suc (last_handle w), t_due = ?d1, t_task = FetchIndex c1\<rparr>"
  have w1: "w1 = w\<lparr>client := (client w)\<lparr>p_loading := True, p_debouncing := Some (Suc (last_handle w))\<rparr>,
            heap := (heap w)(a \<mapsto> Obj (m ++ p1)),
            last_handle := Suc (last_handle w),
            timers := timers (clearTimeout (p_debouncing (client w)) w) @ [?tm1]\<rparr>"
    using get_returns[OF assms(1,2), of p1 c1] assms(4) by simp
  have t1: "timers w1 = [?tm1]"
    by (simp add: w1 clearTimeout_nil[OF assms(3)])
  have wm: "wm = w1\<lparr>now := now wm\<rparr>"
    using assms(5)
  proof
    assume "wm = w1"
    then show ?thesis by simp
  next
    assume e: "wm = elapse t1 w1 \<and> t1 < ?d1"
    then have "\<forall>tm \<in> set (timers w1). t1 < t_due tm" by (simp add: t1)
    from elapse_early[OF this] e show ?thesis by simp
  qed
  have cm: "client wm = client w1" "heap wm = heap w1" "timers wm = timers w1"
    "http wm = http w1" "last_handle wm = last_handle w1"
    by (subst wm, simp)+
  have pm: "p_params (client wm) = JRef a" "heap wm a = Some (Obj (m ++ p1))"
    using assms(1) by (simp_all add: cm w1)
  have hm: "p_debouncing (client wm) = Some (Suc (last_handle w))"
    "p_debounce (client wm) = p_debounce (client w)" "p_route (client wm) = p_route (client w)"
    "http wm = http w"
    by (simp_all add: cm w1)
  have cl: "timers (clearTimeout (p_debouncing (client wm)) wm) = []"
    unfolding hm(1) clearTimeout_def by (simp add: cm(3) t1)
  have cl': "timers (clearTimeout (Some (Suc (last_handle w))) wm) = []"
    by (subst hm(1)[symmetric]) (rule cl)
  have w2: "w2 = wm\<lparr>client := (client wm)\<lparr>p_loading := True, p_debouncing := Some (Suc (last_handle wm))\<rparr>,
            heap := (heap wm)(a \<mapsto> Obj (m ++ p1 ++ p2)),
            last_handle := Suc (last_handle wm),
            timers := timers (clearTimeout (p_debouncing (client wm)) wm) @
              [\<lparr>t_handle = Suc (last_handle wm),
                t_due = now wm + (if handle_truthy (p_debouncing (client wm))
                                  then p_debounce (client wm) else 0),
                t_task = FetchIndex c2\<rparr>]\<rparr>"
    using get_returns[OF pm, of p2 c2] assms(6) by simp
  have d2: "now wm + (if handle_truthy (p_debouncing (client wm)) then p_debounce (client wm) else 0)
            = now wm + p_debounce (client w)"
    by (simp add: hm)
  have t2: "timers w2 = [\<lparr>t_handle = Suc (Suc (last_handle w)),
                       t_due = now wm + p_debounce (client w), t_task = FetchIndex c2\<rparr>]"
    by (subst w2) (simp add: cl' hm cm, simp add: w1 cl')
  have h2: "http w2 = http w"
    by (subst w2) (simp add: hm)
  have pr: "props_of (heap w2) (p_params (client w2)) = m ++ p1 ++ p2"
    by (subst (1 2) w2) (simp add: props_of_def pm)
  have early: "http (elapse t w2) = http w" if "t < now wm + p_debounce (client w)" for t
  proof -
    have "\<forall>tm \<in> set (timers w2). t < t_due tm" using that by (simp add: t2)
    from elapse_early_http[OF this] h2 show ?thesis by simp
  qed
  have late: "timers (elapse t w2) = [] \<and>
            http (elapse t w2) =
              http w @ [\<lparr>r_verb = GET, r_name = p_route (client w) @ ''.index'',
                         r_params = m ++ p1 ++ p2, r_body = None\<rparr>]"
    if "now wm + p_debounce (client w) \<le> t" for t
  proof -
    have le: "now wm + (if handle_truthy (p_debouncing (client wm)) then p_debounce (client wm) else 0) \<le> t"
      using that d2 by simp
    from get_fired(2,3)[OF cl assms(6) le] pr hm show ?thesis by simp
  qed
  from t2 early late show ?thesis by blast
qed

text \<open>
  The theorem on the client whose first fetch is done: \<^verbatim>\<open>get({page: 1})\<close> at 5000
  (due 6000), \<^verbatim>\<open>get({page: 2})\<close> at 5500 (due 6500); one request, with page 2.
\<close>

theorem coalesce_witness:
  "p_params (client first_fetch_done) = JRef 12 \<and>
   heap first_fetch_done 12 = Some (Obj Map.empty) \<and>
   timers first_fetch_done = [] \<and> now first_fetch_done = 5000 \<and>
   p_debounce (client first_fetch_done) = 1000 \<and>
   get [''page'' \<mapsto> JNum 1] None first_fetch_done = Inr burst_first \<and>
   get [''page'' \<mapsto> JNum 2] None (elapse 5500 burst_first) = Inr burst_second \<and>
   timers burst_second = [\<lparr>t_handle = 3, t_due = 6500, t_task = FetchIndex None\<rparr>] \<and>
   http (elapse 6499 burst_second) = http first_fetch_done \<and>
   timers (elapse 6500 burst_second) = [] \<and>
   http (elapse 6500 burst_second) =
     http first_fetch_done @
     [\<lparr>r_verb = GET, r_name = ''users.index'', r_params = [''page'' \<mapsto> JNum 2],
       r_body = None\<rparr>]"
proof -
  have p: "p_params (client first_fetch_done) = JRef 12"
    and h: "heap first_fetch_done 12 = Some (Obj Map.empty)"
    and t: "timers first_fetch_done = []"
    and n: "now first_fetch_done = 5000"
    and d: "p_debounce (client first_fetch_done) = 1000"
    and k: "p_debouncing (client first_fetch_done) = Some 1"
    and l: "last_handle first_fetch_done = 1"
    and r: "p_route (client first_fetch_done) = ''users''"
    by (simp_all add: first_fetch_done_def api_defs)
  have g1: "get [''page'' \<mapsto> JNum 1] None first_fetch_done = Inr burst_first"
    by (simp add: burst_first_def first_fetch_done_def api_defs)
  have pb: "p_params (client (elapse 5500 burst_first)) = JRef 12"
    and hb: "heap (elapse 5500 burst_first) 12 = Some (Obj [''page'' \<mapsto> JNum 1])"
    and nb: "now (elapse 5500 burst_first) = 5500"
    by (simp_all add: burst_first_def first_fetch_done_def api_defs)
  have g2: "get [''page'' \<mapsto> JNum 2] None (elapse 5500 burst_first) = Inr burst_second"
    by (simp add: burst_second_def burst_first_def first_fetch_done_def api_defs)
  have e: "elapse 5500 burst_first = burst_first \<or>
      (elapse 5500 burst_first = elapse 5500 burst_first \<and>
       5500 < now first_fetch_done +
         (if handle_truthy (p_debouncing (client first_fetch_done))
          then p_debounce (client first_fetch_done) else 0))"
    by (simp add: n k d)
  have u: "Map.empty ++ [''page'' \<mapsto> JNum 1] ++ [''page'' \<mapsto> JNum (2::int)] =
             [''page'' \<mapsto> JNum 2]"
    by simp
  from coalesce[OF p h t g1 e g2] p h t n d g1 g2 nb l r u
  show ?thesis by simp
qed

text \<open>
  The claim as stated fails on a new client: its first \<^verbatim>\<open>get\<close> has delay 0 and has
  fired when the second \<^verbatim>\<open>get\<close> comes 500 ms later, within the debounce duration of
  1000 ms; two requests are sent, the first with the parameters of the first call.
\<close>

theorem two_fetches_two_requests:
  "p_debounce (client quiet_client) = 1000 \<and>
   now (world_of (run (take 2 two_fetches) quiet_client)) = 500 \<and>
   returned (run two_fetches quiet_client) \<and>
   map r_verb (http (world_of (run two_fetches quiet_client))) = [GET, GET] \<and>
   map r_name (http (world_of (run two_fetches quiet_client))) = [''users.index'', ''users.index''] \<and>
   map (\<lambda>q. r_params q ''page'') (http (world_of (run two_fetches quiet_client))) =
     [Some (JNum 1), Some (JNum 2)]"
  by (simp add: two_fetches_def api_defs)

end
